theory Spec2Isabelle
  imports Main
begin

section \<open>Values shared by the child runtime (internal/c/start.go)\<close>

text \<open>
  A Go \<open>error\<close> value is identified by its message; the interface value \<open>nil\<close> is
  \<open>None\<close> of \<open>error option\<close>. \<open>errors.New\<close> and \<open>fmt.Errorf\<close> both build such a value.
\<close>

datatype error = Error string

text \<open>
  The value given to \<open>panic\<close>: nil, a value that is an \<open>error\<close>, or any other
  value, kept as the text the verb \<open>%v\<close> prints for it. After \<open>panic(nil)\<close> a
  deferred \<open>recover()\<close> stops the panic and returns nil, as it does when there is
  no panic at all. A call or a receive that never comes back, and one that panics,
  are results of their own.
\<close>

datatype panic_value = PanicNil | PanicError error | PanicOther string

datatype 'a outcome = Returns 'a | Blocks | Panics panic_value

text \<open>
  Modelled from the spec: the declarations of \<open>Shutdown\<close>, \<open>ChildTag\<close>,
  \<open>ChildNotification\<close> (with its method \<open>Unwrap\<close>) and \<open>ChildSpec\<close> (with its
  accessors \<open>GetName\<close>, \<open>GetTag\<close>, \<open>DoesCapturePanic\<close>) are not in the source files
  at hand; start.go uses them by the names below. \<open>otherT\<close> stands for every tag value
  that is neither of the two defined constants.
\<close>

datatype shutdownTag = indefinitelyT | timeoutT | otherT nat

record Shutdown =
  tag :: shutdownTag
  duration :: int

datatype ChildTag = Worker | Supervisor

record ChildNotification =
  name :: string
  tag :: ChildTag
  runtimeName :: string
  err :: "error option"

definition Unwrap :: "ChildNotification \<Rightarrow> error option" where
  "Unwrap chNotification = err chNotification"

text \<open>
  The \<open>Start\<close> attribute of a spec is a client function
  \<open>func(ctx, notifyStart) error\<close>. What start.go can observe of one run of it is the
  sequence of its calls of the callback (each with an error or nil) and how the run
  ends: it returns an error or nil, it never returns, or it panics.
\<close>

record StartFn =
  calls :: "error option list"
  finish :: "error option outcome"

record ChildSpec =
  GetName :: string
  GetTag :: ChildTag
  DoesCapturePanic :: bool
  Start :: StartFn

subsection \<open>Channels and select\<close>

text \<open>
  What the one receive on a channel gets: a value sent to it, the closed channel
  (\<open>ok = false\<close>), or nothing ever.
\<close>

datatype 'a chan = Sends 'a | Closes | Silent

text \<open>
  A Go \<open>select\<close> with two communication cases and no default. Each case is given
  by the instant from which it can proceed (\<open>None\<close>: never). The select runs the case
  that can proceed first; when both can at the same instant the runtime picks one
  of them, which the flag \<open>pick\<close> stands for; when neither ever can, it blocks forever.
\<close>

datatype select_case = First | Second | Neither

definition select2 :: "nat option \<Rightarrow> nat option \<Rightarrow> bool \<Rightarrow> select_case" where
  "select2 a b pick =
     (case a of
        None \<Rightarrow> (case b of None \<Rightarrow> Neither | Some y \<Rightarrow> Second)
      | Some x \<Rightarrow>
          (case b of
             None \<Rightarrow> First
           | Some y \<Rightarrow>
               if x < y then First else if y < x then Second
               else if pick then First else Second))"

text \<open>\<open>time.After(d)\<close>: the instant its channel delivers, at once when \<open>d \<le> 0\<close>.\<close>

definition time_After :: "int \<Rightarrow> nat" where
  "time_After d = nat d"

text \<open>\<open>strings.Join(elems, sep)\<close>.\<close>

fun strings_Join :: "string list \<Rightarrow> string \<Rightarrow> string" where
  "strings_Join [] sep = []"
| "strings_Join [a] sep = a"
| "strings_Join (a # b # rest) sep = a @ sep @ strings_Join (b # rest) sep"

section \<open>waitTimeout\<close>

text \<open>
  \<open>waitTimeout(terminateCh)\<close> returns the function a \<open>Child\<close> waits with. Besides the
  \<open>Shutdown\<close> value the model takes what the scheduler decides: \<open>at\<close>, the instant
  (counted from the call) at which the send or the close on \<open>terminateCh\<close> reaches
  this receive, and \<open>pick\<close>, the choice of the select on a tie.
\<close>

definition waitTimeout ::
  "ChildNotification chan \<Rightarrow> Shutdown \<Rightarrow> nat \<Rightarrow> bool \<Rightarrow> error option outcome" where
  "waitTimeout terminateCh shutdown at pick =
     (case Shutdown.tag shutdown of
        indefinitelyT \<Rightarrow>
          (case terminateCh of
             Closes \<Rightarrow> Returns None
           | Sends childNotification \<Rightarrow> Returns (Unwrap childNotification)
           | Silent \<Rightarrow> Blocks)
      | timeoutT \<Rightarrow>
          (case select2 (case terminateCh of Silent \<Rightarrow> None | _ \<Rightarrow> Some at)
                        (Some (time_After (duration shutdown))) pick of
             First \<Rightarrow>
               (case terminateCh of
                  Closes \<Rightarrow> Returns None
                | Sends childNotification \<Rightarrow> Returns (Unwrap childNotification)
                | Silent \<Rightarrow> Blocks)
           | Second \<Rightarrow> Returns (Some (Error ''child shutdown timeout''))
           | Neither \<Rightarrow> Blocks)
      | otherT _ \<Rightarrow> Panics (PanicOther ''invalid shutdown value received''))"

section \<open>sendNotificationToSup\<close>

text \<open>
  The two channels the notification is offered on, as the sender sees them: the
  instant from which a receiver takes from \<open>supNotifyCh\<close> (the supervision loop) and
  the instant from which one takes from \<open>terminateCh\<close> (a \<open>wait\<close>), \<open>None\<close> when no
  receiver ever does; and the select's choice on a tie.
\<close>

record receivers =
  supNotifyCh :: "nat option"
  terminateCh :: "nat option"
  pick :: bool

text \<open>
  The result records the value built and the select case that ran:
  \<open>First\<close> is the send on \<open>supNotifyCh\<close>, \<open>Second\<close> the send on \<open>terminateCh\<close>,
  \<open>Neither\<close> a sender blocked forever.
\<close>

record sent =
  chNotification :: ChildNotification
  ran :: select_case

definition sendNotificationToSup ::
  "error option \<Rightarrow> ChildSpec \<Rightarrow> string \<Rightarrow> receivers \<Rightarrow> sent" where
  "sendNotificationToSup e chSpec chRuntimeName rcv =
     \<lparr>chNotification =
        \<lparr>name = GetName chSpec, tag = GetTag chSpec,
         runtimeName = chRuntimeName, err = e\<rparr>,
      ran = select2 (supNotifyCh rcv) (terminateCh rcv) (pick rcv)\<rparr>"

section \<open>DoStart\<close>

text \<open>
  \<open>startCh\<close> is unbuffered and has one receiver, the \<open>err := <-startCh\<close> of \<open>DoStart\<close>.
  Its state: the value handed to that receive, if any, and whether it is closed.
\<close>

record startCh =
  handed :: "error option"
  closed :: bool

definition closeStartCh :: "startCh \<Rightarrow> startCh outcome" where
  "closeStartCh ch =
     (if closed ch then Panics (PanicError (Error ''close of closed channel''))
      else Returns (ch\<lparr>closed := True\<rparr>))"

definition sendStartCh :: "error \<Rightarrow> startCh \<Rightarrow> startCh outcome" where
  "sendStartCh e ch =
     (if closed ch then Panics (PanicError (Error ''send on closed channel''))
      else if handed ch = None then Returns (ch\<lparr>handed := Some e\<rparr>)
      else Blocks)"

text \<open>The callback given to \<open>Start\<close> (lines 144 to 150).\<close>

definition notifyStart :: "error option \<Rightarrow> startCh \<Rightarrow> startCh outcome" where
  "notifyStart e ch =
     (case e of
        Some e' \<Rightarrow>
          (case sendStartCh e' ch of
             Returns ch' \<Rightarrow> closeStartCh ch'
           | Blocks \<Rightarrow> Blocks
           | Panics p \<Rightarrow> Panics p)
      | None \<Rightarrow> closeStartCh ch)"

text \<open>
  One run of \<open>chSpec.Start(childCtx, callback)\<close> against \<open>startCh\<close>: the callback
  calls in order, stopping at the first that does not return, then the end of the
  client function.
\<close>

fun runStart :: "error option list \<Rightarrow> error option outcome \<Rightarrow> startCh \<Rightarrow>
    startCh \<times> error option outcome" where
  "runStart [] fin ch = (ch, fin)"
| "runStart (e # es) fin ch =
     (case notifyStart e ch of
        Returns ch' \<Rightarrow> runStart es fin ch'
      | Blocks \<Rightarrow> (ch, Blocks)
      | Panics p \<Rightarrow> (ch, Panics p))"

text \<open>
  The value recovered from a panic, as an error (lines 127 to 130): the value itself
  when it is an error, the formatted error otherwise (\<open>%v\<close> prints nil as
  \<open><nil>\<close>).
\<close>

definition panicErr :: "panic_value \<Rightarrow> error" where
  "panicErr panicVal =
     (case panicVal of
        PanicError e \<Rightarrow> e
      | PanicOther v \<Rightarrow> Error (''panic error: '' @ v)
      | PanicNil \<Rightarrow> Error (''panic error: <nil>''))"

text \<open>
  The child goroutine (lines 111 to 159): the state \<open>startCh\<close> is left in, the calls
  of \<open>sendNotificationToSup\<close> it made, whether the deferred \<open>close(terminateCh)\<close> ran,
  and how it ended: \<open>Returns ()\<close> when the goroutine is over, \<open>Blocks\<close> when it stays
  inside \<open>Start\<close> or inside the select forever, \<open>Panics\<close> when a panic left it
  unrecovered. In the deferred function (lines 118 to 139) \<open>recover()\<close> returns the
  value given to \<open>panic\<close>; when that value is nil the function returns at line 124,
  nothing is posted, and the goroutine goes on to its other deferred calls and ends.
\<close>

record goroutine =
  start :: startCh
  posted :: "sent list"
  terminateClosed :: bool
  ending :: "unit outcome"

definition afterSend :: "startCh \<Rightarrow> sent \<Rightarrow> goroutine" where
  "afterSend ch s =
     (if ran s = Neither
      then \<lparr>start = ch, posted = [s], terminateClosed = False, ending = Blocks\<rparr>
      else \<lparr>start = ch, posted = [s], terminateClosed = True, ending = Returns ()\<rparr>)"

definition childGoroutine :: "ChildSpec \<Rightarrow> string \<Rightarrow> receivers \<Rightarrow> goroutine" where
  "childGoroutine chSpec chRuntimeName rcv =
     (case runStart (calls (Start chSpec)) (finish (Start chSpec))
             \<lparr>handed = None, closed = False\<rparr> of
        (ch, Blocks) \<Rightarrow>
          \<lparr>start = ch, posted = [], terminateClosed = False, ending = Blocks\<rparr>
      | (ch, Returns e) \<Rightarrow>
          afterSend ch (sendNotificationToSup e chSpec chRuntimeName rcv)
      | (ch, Panics panicVal) \<Rightarrow>
          if DoesCapturePanic chSpec
          then (if panicVal = PanicNil
                then \<lparr>start = ch, posted = [], terminateClosed = True,
                      ending = Returns ()\<rparr>
                else afterSend ch
                       (sendNotificationToSup (Some (panicErr panicVal)) chSpec
                          chRuntimeName rcv))
          else \<lparr>start = ch, posted = [], terminateClosed = True,
                ending = Panics panicVal\<rparr>)"

text \<open>What a receive on the goroutine's \<open>terminateCh\<close> gets.\<close>

definition terminateChOf :: "goroutine \<Rightarrow> ChildNotification chan" where
  "terminateChOf g =
     (case filter (\<lambda>s. ran s = Second) (posted g) of
        s # _ \<Rightarrow> Sends (chNotification s)
      | [] \<Rightarrow> if terminateClosed g then Closes else Silent)"

text \<open>
  The handle. \<open>Child{}\<close>, the zero value, has no spec, no \<open>cancel\<close> and no \<open>wait\<close>.
\<close>

record Child =
  runtimeName :: string
  createdAt :: nat
  spec :: "ChildSpec option"
  cancel :: bool
  wait :: "(Shutdown \<Rightarrow> nat \<Rightarrow> bool \<Rightarrow> error option outcome) option"

definition emptyChild :: Child where
  "emptyChild =
     \<lparr>runtimeName = [], createdAt = 0, spec = None, cancel = False, wait = None\<rparr>"

text \<open>
  \<open>DoStart\<close> (lines 99 to 174). \<open>now\<close> is what \<open>time.Now()\<close> reads. The receive on
  \<open>startCh\<close> gets the value handed over, or nil from the closed channel; while
  neither has happened \<open>DoStart\<close> does not return, and an unrecovered panic of the
  goroutine ends the process.
\<close>

definition DoStart ::
  "ChildSpec \<Rightarrow> string \<Rightarrow> receivers \<Rightarrow> nat \<Rightarrow> (Child \<times> error option) outcome" where
  "DoStart chSpec supName rcv now =
     (let chRuntimeName = strings_Join [supName, GetName chSpec] ''/'';
          g = childGoroutine chSpec chRuntimeName rcv
      in case handed (start g) of
           Some e \<Rightarrow> Returns (emptyChild, Some e)
         | None \<Rightarrow>
             if closed (start g)
             then Returns
                    (\<lparr>runtimeName = chRuntimeName, createdAt = now, spec = Some chSpec,
                      cancel = True, wait = Some (waitTimeout (terminateChOf g))\<rparr>,
                     None)
             else (case ending g of Panics p \<Rightarrow> Panics p | _ \<Rightarrow> Blocks))"

section \<open>How one run of a child goes\<close>

text \<open>
  How the call of \<open>Start\<close> ends once the panics of its callback calls are counted in.
\<close>

definition activityEnd :: "ChildSpec \<Rightarrow> error option outcome" where
  "activityEnd chSpec =
     snd (runStart (calls (Start chSpec)) (finish (Start chSpec))
            \<lparr>handed = None, closed = False\<rparr>)"

definition chRuntimeNameOf :: "string \<Rightarrow> ChildSpec \<Rightarrow> string" where
  "chRuntimeNameOf supName chSpec = strings_Join [supName, GetName chSpec] ''/''"

section \<open>Supervisor start and termination procedures\<close>

text \<open>
  Modelled from the spec: the supervisor runtime (package \<open>s\<close>) is not in the source
  files at hand, only its tests are. The procedures below follow section 4.3 of the
  specification. A node is a worker, with its name and whether its start function
  signals "started" (\<open>True\<close>) or reports a start error (\<open>False\<close>), or a supervisor
  with its name, its start order and its child specs. Runtime names are joined as
  \<open>DoStart\<close> joins them. Every child is taken to stop without a termination error:
  the two procedures are modelled as far as the ordering rules reach.
\<close>

datatype Order = LeftToRight | RightToLeft

datatype node = WorkerNode string bool | SupervisorNode string Order "node list"

datatype event =
    WorkerStarted string
  | WorkerTerminated string
  | WorkerStartFailed string
  | SupervisorStarted string
  | SupervisorTerminated string
  | SupervisorStartFailed string

text \<open>
  A live node: a worker, or a supervisor with its live children, the most recently
  started first.
\<close>

datatype handle = WorkerHandle string | SupervisorHandle string "handle list"

text \<open>
  The error a failed start returns upward: the start error of a worker, named by
  its runtime name, or the \<open>StartFailed\<close> error of a supervisor.
\<close>

datatype start_error = StartError string | StartFailed string

fun nodeName :: "node \<Rightarrow> string" where
  "nodeName (WorkerNode n ok) = n"
| "nodeName (SupervisorNode n ord cs) = n"

text \<open>"Given the ordered spec list (reversed if RightToLeft)".\<close>

definition startOrder :: "Order \<Rightarrow> 'a list \<Rightarrow> 'a list" where
  "startOrder ord cs = (case ord of LeftToRight \<Rightarrow> cs | RightToLeft \<Rightarrow> rev cs)"

text \<open>
  Termination: the live children are stopped from the most recently started one
  on, each wholly before the next, then the supervisor emits its own event.
\<close>

fun terminateNode :: "handle \<Rightarrow> event list"
  and terminateChildren :: "handle list \<Rightarrow> event list" where
  "terminateNode (WorkerHandle rn) = [WorkerTerminated rn]"
| "terminateNode (SupervisorHandle rn running) =
     terminateChildren running @ [SupervisorTerminated rn]"
| "terminateChildren [] = []"
| "terminateChildren (h # hs) = terminateNode h @ terminateChildren hs"

lemma size_list_rev [simp]: "size_list f (rev xs) = size_list f xs"
  by (induction xs) simp_all

lemma size_list_startOrder [simp]: "size_list f (startOrder ord xs) = size_list f xs"
  by (cases ord) (simp_all add: startOrder_def)

lemma set_startOrder [simp]: "set (startOrder ord xs) = set xs"
  by (cases ord) (simp_all add: startOrder_def)

text \<open>
  Start: the children are started one after the other in start order; each started
  child is put in front of the live ones. When a child fails to start, the live ones
  are terminated (roll back) and the supervisor reports its own start failure;
  otherwise it emits its own started event. The result is the events emitted, in
  order, and either the live node or the error returned upward.
\<close>

fun startNode :: "string \<Rightarrow> node \<Rightarrow> event list \<times> (start_error + handle)"
  and startChildren ::
    "string \<Rightarrow> node list \<Rightarrow> handle list \<Rightarrow> event list \<times> (start_error + handle list)" where
  "startNode rn (WorkerNode n ok) =
     (if ok then ([WorkerStarted rn], Inr (WorkerHandle rn))
      else ([WorkerStartFailed rn], Inl (StartError rn)))"
| "startNode rn (SupervisorNode n ord cs) =
     (case startChildren rn (startOrder ord cs) [] of
        (evs, Inr running) \<Rightarrow>
          (evs @ [SupervisorStarted rn], Inr (SupervisorHandle rn running))
      | (evs, Inl e) \<Rightarrow> (evs @ [SupervisorStartFailed rn], Inl (StartFailed rn)))"
| "startChildren supName [] running = ([], Inr running)"
| "startChildren supName (c # cs) running =
     (case startNode (strings_Join [supName, nodeName c] ''/'') c of
        (evs, Inr h) \<Rightarrow>
          (case startChildren supName cs (h # running) of (evs', r) \<Rightarrow> (evs @ evs', r))
      | (evs, Inl e) \<Rightarrow> (evs @ terminateChildren running, Inl e))"

text \<open>The root supervisor's runtime name is its own name.\<close>

definition startRoot :: "node \<Rightarrow> event list \<times> (start_error + handle)" where
  "startRoot root = startNode (nodeName root) root"

subsection \<open>The observable ordering rule\<close>

text \<open>
  Modelled from the spec: section 4.5 states the event sequences as a rule on the
  subtree, written here as it reads: on start the children's sequences in start
  order, then the supervisor's started event; on stop the children's sequences in
  the reverse of the start order, then the supervisor's stopped event.
\<close>

fun startsOk :: "node \<Rightarrow> bool" where
  "startsOk (WorkerNode n ok) = ok"
| "startsOk (SupervisorNode n ord cs) = list_all startsOk cs"

fun startedEvents :: "string \<Rightarrow> node \<Rightarrow> event list" where
  "startedEvents rn (WorkerNode n ok) = [WorkerStarted rn]"
| "startedEvents rn (SupervisorNode n ord cs) =
     concat (map (\<lambda>c. startedEvents (strings_Join [rn, nodeName c] ''/'') c)
               (startOrder ord cs))
     @ [SupervisorStarted rn]"

fun stoppedEvents :: "string \<Rightarrow> node \<Rightarrow> event list" where
  "stoppedEvents rn (WorkerNode n ok) = [WorkerTerminated rn]"
| "stoppedEvents rn (SupervisorNode n ord cs) =
     concat (map (\<lambda>c. stoppedEvents (strings_Join [rn, nodeName c] ''/'') c)
               (rev (startOrder ord cs)))
     @ [SupervisorTerminated rn]"

text \<open>The workers an event sequence starts, and the workers it stops, in order.\<close>

fun workersStarted :: "event list \<Rightarrow> string list" where
  "workersStarted [] = []"
| "workersStarted (WorkerStarted rn # evs) = rn # workersStarted evs"
| "workersStarted (_ # evs) = workersStarted evs"

fun workersStopped :: "event list \<Rightarrow> string list" where
  "workersStopped [] = []"
| "workersStopped (WorkerTerminated rn # evs) = rn # workersStopped evs"
| "workersStopped (_ # evs) = workersStopped evs"

subsection \<open>The live tree of a spec\<close>

text \<open>
  Modelled from the spec: the live node a spec leaves once every node under it is
  running (data model, invariant 4: the runtime names of live nodes form a tree
  isomorphic to the spec tree), children kept as the start procedure keeps them.
\<close>

fun handleOf :: "string \<Rightarrow> node \<Rightarrow> handle" where
  "handleOf rn (WorkerNode n ok) = WorkerHandle rn"
| "handleOf rn (SupervisorNode n ord cs) =
     SupervisorHandle rn
       (rev (map (\<lambda>c. handleOf (strings_Join [rn, nodeName c] ''/'') c) (startOrder ord cs)))"

text \<open>
  Modelled from the spec: the error a node returns upward when its start fails
  (section 7: a \<open>StartError\<close> from a start function, \<open>StartFailed\<close> from a
  supervisor whose child failed to start).
\<close>

fun failureOf :: "string \<Rightarrow> node \<Rightarrow> start_error" where
  "failureOf rn (WorkerNode n ok) = StartError rn"
| "failureOf rn (SupervisorNode n ord cs) = StartFailed rn"

section \<open>Tolerance accountant\<close>

text \<open>
  Modelled from the spec: the accountant's code is not in the source files at hand,
  only tests of the supervisor that uses it. Section 4.4: the state is the window, the
  number of failures tolerated and the instants retained; on each recorded failure
  "drop all instants older than now - window, push now, then admit the restart iff
  len(instants) <= max_failures". Instants and durations count nanoseconds.
\<close>

record accountant =
  window :: int
  max_failures :: nat
  instants :: "int list"

definition newAccountant :: "nat \<Rightarrow> int \<Rightarrow> accountant" where
  "newAccountant n w = \<lparr>window = w, max_failures = n, instants = []\<rparr>"

definition recordFailure :: "accountant \<Rightarrow> int \<Rightarrow> accountant \<times> bool" where
  "recordFailure a now =
     (let kept = filter (\<lambda>t. \<not> t < now - window a) (instants a);
          pushed = kept @ [now]
      in (a\<lparr>instants := pushed\<rparr>, length pushed \<le> max_failures a))"

text \<open>The decisions on a sequence of failures, each recorded at its instant.\<close>

fun recordFailures :: "accountant \<Rightarrow> int list \<Rightarrow> bool list" where
  "recordFailures a [] = []"
| "recordFailures a (now # later) =
     (case recordFailure a now of (a', admitted) \<Rightarrow> admitted # recordFailures a' later)"

text \<open>
  Modelled from the spec: the accountant's state once a sequence of failures has
  been recorded, each at its instant.
\<close>

fun afterFailures :: "accountant \<Rightarrow> int list \<Rightarrow> accountant" where
  "afterFailures a [] = a"
| "afterFailures a (now # later) = afterFailures (fst (recordFailure a now)) later"

section \<open>Properties of the child runtime\<close>

subsection \<open>The start channel\<close>

lemma runStart_closed:
  "closed ch \<Longrightarrow> fst (runStart es fin ch) = ch"
  by (cases es; cases "hd es")
     (auto simp: notifyStart_def closeStartCh_def sendStartCh_def)

lemma runStart_nil_first:
  "fst (runStart (None # es) fin \<lparr>handed = None, closed = False\<rparr>)
     = \<lparr>handed = None, closed = True\<rparr>"
  using runStart_closed [of "\<lparr>handed = None, closed = True\<rparr>" es fin]
  by (simp add: notifyStart_def closeStartCh_def)

lemma runStart_err_first:
  "fst (runStart (Some e # es) fin \<lparr>handed = None, closed = False\<rparr>)
     = \<lparr>handed = Some e, closed = True\<rparr>"
  using runStart_closed [of "\<lparr>handed = Some e, closed = True\<rparr>" es fin]
  by (simp add: notifyStart_def closeStartCh_def sendStartCh_def)

lemma start_afterSend: "start (afterSend ch s) = ch"
  by (simp add: afterSend_def)

lemma start_childGoroutine:
  "start (childGoroutine chSpec rn rcv)
     = fst (runStart (calls (Start chSpec)) (finish (Start chSpec))
              \<lparr>handed = None, closed = False\<rparr>)"
  by (simp add: childGoroutine_def start_afterSend split: prod.splits outcome.splits)

lemma start_nil_first:
  assumes "calls (Start chSpec) = None # rest"
  shows "start (childGoroutine chSpec rn rcv) = \<lparr>handed = None, closed = True\<rparr>"
  unfolding start_childGoroutine assms by (rule runStart_nil_first)

lemma start_err_first:
  assumes "calls (Start chSpec) = Some e # rest"
  shows "start (childGoroutine chSpec rn rcv) = \<lparr>handed = Some e, closed = True\<rparr>"
  unfolding start_childGoroutine assms by (rule runStart_err_first)

lemma start_no_call:
  assumes "calls (Start chSpec) = []"
  shows "start (childGoroutine chSpec rn rcv) = \<lparr>handed = None, closed = False\<rparr>"
  unfolding start_childGoroutine assms by simp

lemma DoStart_nil_first:
  assumes "calls (Start chSpec) = None # rest"
  shows "DoStart chSpec supName rcv now =
        Returns
          (\<lparr>runtimeName = chRuntimeNameOf supName chSpec, createdAt = now,
            spec = Some chSpec, cancel = True,
            wait = Some (waitTimeout (terminateChOf
                     (childGoroutine chSpec (chRuntimeNameOf supName chSpec) rcv)))\<rparr>,
           None)"
  by (simp add: DoStart_def Let_def chRuntimeNameOf_def start_nil_first [OF assms])

lemma DoStart_err_first:
  assumes "calls (Start chSpec) = Some e # rest"
  shows "DoStart chSpec supName rcv now = Returns (emptyChild, Some e)"
  by (simp add: DoStart_def Let_def start_err_first [OF assms])

lemma DoStart_no_call:
  assumes "calls (Start chSpec) = []"
  shows "DoStart chSpec supName rcv now \<noteq> Returns r"
  by (simp add: DoStart_def Let_def start_no_call [OF assms] split: outcome.splits)

lemma DoStart_handle:
  "DoStart chSpec supName rcv now = Returns (h, None) \<Longrightarrow>
   h = \<lparr>runtimeName = chRuntimeNameOf supName chSpec, createdAt = now,
            spec = Some chSpec, cancel = True,
            wait = Some (waitTimeout (terminateChOf
                     (childGoroutine chSpec (chRuntimeNameOf supName chSpec) rcv)))\<rparr>"
  by (auto simp: DoStart_def Let_def chRuntimeNameOf_def
        split: option.splits if_splits outcome.splits)

lemma runtimeName_of_started:
  "DoStart chSpec supName rcv now = Returns (h, None) \<Longrightarrow>
   Child.runtimeName h = supName @ ''/'' @ GetName chSpec"
  by (auto simp: DoStart_def Let_def split: option.splits if_splits outcome.splits)

subsection \<open>The goroutine\<close>

lemma activityEnd_single:
  "length (calls (Start chSpec)) \<le> 1 \<Longrightarrow> activityEnd chSpec = finish (Start chSpec)"
  by (cases "calls (Start chSpec)"; cases "hd (calls (Start chSpec))")
     (auto simp: activityEnd_def notifyStart_def closeStartCh_def sendStartCh_def)

lemma childGoroutine_Returns:
  "activityEnd chSpec = Returns e \<Longrightarrow>
   childGoroutine chSpec rn rcv =
     afterSend (start (childGoroutine chSpec rn rcv)) (sendNotificationToSup e chSpec rn rcv)"
  by (auto simp: activityEnd_def childGoroutine_def start_afterSend
        split: prod.splits outcome.splits)

lemma childGoroutine_Panics_nil:
  "activityEnd chSpec = Panics PanicNil \<Longrightarrow> DoesCapturePanic chSpec \<Longrightarrow>
   posted (childGoroutine chSpec rn rcv) = [] \<and>
   terminateClosed (childGoroutine chSpec rn rcv) \<and>
   ending (childGoroutine chSpec rn rcv) = Returns ()"
  by (auto simp: activityEnd_def childGoroutine_def
        split: prod.splits outcome.splits)

lemma childGoroutine_Panics_captured:
  "activityEnd chSpec = Panics p \<Longrightarrow> DoesCapturePanic chSpec \<Longrightarrow> p \<noteq> PanicNil \<Longrightarrow>
   childGoroutine chSpec rn rcv =
     afterSend (start (childGoroutine chSpec rn rcv))
       (sendNotificationToSup (Some (panicErr p)) chSpec rn rcv)"
  by (auto simp: activityEnd_def childGoroutine_def start_afterSend
        split: prod.splits outcome.splits)

lemma childGoroutine_Panics_uncaptured:
  "activityEnd chSpec = Panics p \<Longrightarrow> \<not> DoesCapturePanic chSpec \<Longrightarrow>
   posted (childGoroutine chSpec rn rcv) = [] \<and>
   ending (childGoroutine chSpec rn rcv) = Panics p"
  by (auto simp: activityEnd_def childGoroutine_def
        split: prod.splits outcome.splits)

lemma posted_afterSend: "posted (afterSend ch s) = [s]"
  by (simp add: afterSend_def)

lemma ending_afterSend:
  "ending (afterSend ch s) = (if ran s = Neither then Blocks else Returns ())"
  by (simp add: afterSend_def)

lemma terminateChOf_afterSend:
  "terminateChOf (afterSend ch s) =
     (case ran s of First \<Rightarrow> Closes | Second \<Rightarrow> Sends (chNotification s) | Neither \<Rightarrow> Silent)"
  by (cases "ran s") (simp_all add: afterSend_def terminateChOf_def)

subsection \<open>Select and wait\<close>

lemma select2_Neither:
  "select2 a b p = Neither \<longleftrightarrow> a = None \<and> b = None"
  by (auto simp: select2_def split: option.splits)

lemma select2_First: "select2 a b p = First \<Longrightarrow> a \<noteq> None"
  by (auto simp: select2_def split: option.splits)

lemma select2_Second: "select2 a b p = Second \<Longrightarrow> b \<noteq> None"
  by (auto simp: select2_def split: option.splits)

lemma select2_tie: "select2 (Some t) (Some t) p = (if p then First else Second)"
  by (simp add: select2_def)

lemma waitTimeout_Sends_in_time:
  "Shutdown.tag shutdown = timeoutT \<Longrightarrow> int at < duration shutdown \<Longrightarrow>
   waitTimeout (Sends n) shutdown at p = Returns (err n)"
proof -
  assume a: "Shutdown.tag shutdown = timeoutT" and b: "int at < duration shutdown"
  from b have "at < nat (duration shutdown)" by linarith
  with a show ?thesis
    by (simp add: waitTimeout_def select2_def time_After_def Unwrap_def)
qed

lemma waitTimeout_Closes_in_time:
  "Shutdown.tag shutdown = timeoutT \<Longrightarrow> int at < duration shutdown \<Longrightarrow>
   waitTimeout Closes shutdown at p = Returns None"
proof -
  assume a: "Shutdown.tag shutdown = timeoutT" and b: "int at < duration shutdown"
  from b have "at < nat (duration shutdown)" by linarith
  with a show ?thesis
    by (simp add: waitTimeout_def select2_def time_After_def)
qed

lemma waitTimeout_Closes_indefinitely:
  "Shutdown.tag shutdown = indefinitelyT \<Longrightarrow>
   waitTimeout Closes shutdown at p = Returns None"
  by (simp add: waitTimeout_def)

lemma waitTimeout_late:
  "Shutdown.tag shutdown = timeoutT \<Longrightarrow>
   c = Silent \<or> max 0 (duration shutdown) < int at \<Longrightarrow>
   waitTimeout c shutdown at p = Returns (Some (Error ''child shutdown timeout''))"
  by (cases c) (auto simp: waitTimeout_def select2_def time_After_def)

subsection \<open>The start handshake\<close>

text \<open>
  Claim C1. \<open>DoStart\<close> keeps its caller until the activity calls the callback, and
  the first call decides what it returns: after a call with nil, the handle of the
  child (its runtime name, the instant of creation, its spec, its cancel function and
  a wait on its terminate channel) with a nil error; after a call with an error
  \<open>e\<close>, the zero handle with exactly \<open>e\<close>. While the activity has not called the
  callback, \<open>DoStart\<close> returns nothing at all.
\<close>

theorem DoStart_waits_for_notifyStart:
  "(calls (Start chSpec) = None # rest \<longrightarrow>
      DoStart chSpec supName rcv now =
        Returns
          (\<lparr>runtimeName = chRuntimeNameOf supName chSpec, createdAt = now,
            spec = Some chSpec, cancel = True,
            wait = Some (waitTimeout (terminateChOf
                     (childGoroutine chSpec (chRuntimeNameOf supName chSpec) rcv)))\<rparr>,
           None)) \<and>
   (calls (Start chSpec) = Some e # rest \<longrightarrow>
      DoStart chSpec supName rcv now = Returns (emptyChild, Some e)) \<and>
   (calls (Start chSpec) = [] \<longrightarrow>
      (\<forall>r. DoStart chSpec supName rcv now \<noteq> Returns r))"
  using DoStart_nil_first DoStart_err_first DoStart_no_call by blast

text \<open>
  A worker that signals its start and then waits for cancellation; a worker whose
  start function reports an error through the callback; a worker that never calls
  the callback.
\<close>

theorem DoStart_waits_for_notifyStart_witness:
  "(\<exists>h. DoStart \<lparr>GetName = ''one'', GetTag = Worker, DoesCapturePanic = False,
              Start = \<lparr>calls = [None], finish = Returns None\<rparr>\<rparr>
        ''root'' \<lparr>supNotifyCh = None, terminateCh = Some 3, pick = True\<rparr> 7
      = Returns (h, None) \<and> Child.runtimeName h = ''root/one'' \<and> createdAt h = 7) \<and>
   DoStart \<lparr>GetName = ''child3'', GetTag = Worker, DoesCapturePanic = False,
              Start = \<lparr>calls = [Some (Error ''FailStartChild'')],
                        finish = Returns (Some (Error ''FailStartChild''))\<rparr>\<rparr>
        ''root/branch1'' \<lparr>supNotifyCh = None, terminateCh = None, pick = True\<rparr> 7
      = Returns (emptyChild, Some (Error ''FailStartChild'')) \<and>
   DoStart \<lparr>GetName = ''one'', GetTag = Worker, DoesCapturePanic = False,
              Start = \<lparr>calls = [], finish = Blocks\<rparr>\<rparr>
        ''root'' \<lparr>supNotifyCh = Some 0, terminateCh = None, pick = True\<rparr> 7
      \<noteq> Returns (emptyChild, None)"
  using
    DoStart_waits_for_notifyStart [where
      chSpec = "\<lparr>GetName = ''one'', GetTag = Worker, DoesCapturePanic = False,
              Start = \<lparr>calls = [None], finish = Returns None\<rparr>\<rparr>" and rest = "[]"
      and supName = "''root''"
      and rcv = "\<lparr>supNotifyCh = None, terminateCh = Some 3, pick = True\<rparr>" and now = 7]
    DoStart_waits_for_notifyStart [where
      chSpec = "\<lparr>GetName = ''child3'', GetTag = Worker, DoesCapturePanic = False,
              Start = \<lparr>calls = [Some (Error ''FailStartChild'')],
                        finish = Returns (Some (Error ''FailStartChild''))\<rparr>\<rparr>"
      and supName = "''root/branch1''"
      and rcv = "\<lparr>supNotifyCh = None, terminateCh = None, pick = True\<rparr>" and now = 7
      and e = "Error ''FailStartChild''" and rest = "[]"]
    DoStart_waits_for_notifyStart [where
      chSpec = "\<lparr>GetName = ''one'', GetTag = Worker, DoesCapturePanic = False,
              Start = \<lparr>calls = [], finish = Blocks\<rparr>\<rparr>" and supName = "''root''"
      and rcv = "\<lparr>supNotifyCh = Some 0, terminateCh = None, pick = True\<rparr>" and now = 7]
  by (simp add: chRuntimeNameOf_def)

subsection \<open>A start function that returns without calling the callback\<close>

text \<open>
  The start function below returns an error and never calls the callback. Nothing
  is sent on \<open>startCh\<close> and nothing closes it, so \<open>DoStart\<close> stays in its receive:
  it does not return the zero handle with that error.
\<close>

theorem DoStart_return_before_notifyStart_counterexample:
  "DoStart \<lparr>GetName = ''one'', GetTag = Worker, DoesCapturePanic = False,
             Start = \<lparr>calls = [], finish = Returns (Some (Error ''boom''))\<rparr>\<rparr>
        ''root'' \<lparr>supNotifyCh = Some 0, terminateCh = None, pick = True\<rparr> 7 = Blocks \<and>
   DoStart \<lparr>GetName = ''one'', GetTag = Worker, DoesCapturePanic = False,
             Start = \<lparr>calls = [], finish = Returns (Some (Error ''boom''))\<rparr>\<rparr>
        ''root'' \<lparr>supNotifyCh = Some 0, terminateCh = None, pick = True\<rparr> 7
     \<noteq> Returns (emptyChild, Some (Error ''boom''))"
  by (simp add: DoStart_def childGoroutine_def afterSend_def sendNotificationToSup_def
        select2_def)

text \<open>
  Claim C2, as the code has it. When the start function returns (an error or nil)
  without ever calling the callback, \<open>DoStart\<close> never returns to its caller; the
  value returned by the start function is the error of the one notification the
  goroutine then offers on the supervisor's and the terminate channel.
\<close>

theorem DoStart_return_before_notifyStart:
  assumes "calls (Start chSpec) = []" and "finish (Start chSpec) = Returns e"
  shows "DoStart chSpec supName rcv now = Blocks \<and>
         map chNotification
           (posted (childGoroutine chSpec (chRuntimeNameOf supName chSpec) rcv)) =
         [\<lparr>name = GetName chSpec, tag = GetTag chSpec,
           runtimeName = chRuntimeNameOf supName chSpec, err = e\<rparr>]"
proof -
  have fin: "activityEnd chSpec = Returns e"
    using assms by (simp add: activityEnd_single)
  then have "posted (childGoroutine chSpec (chRuntimeNameOf supName chSpec) rcv) =
      [sendNotificationToSup e chSpec (chRuntimeNameOf supName chSpec) rcv]"
    using childGoroutine_Returns posted_afterSend by metis
  moreover have "ending (childGoroutine chSpec rn rcv) \<noteq> Panics p" for rn p
    using fin childGoroutine_Returns [of chSpec e rn rcv] ending_afterSend
    by (metis outcome.distinct(3) outcome.distinct(5))
  ultimately show ?thesis
    using start_no_call [OF assms(1)]
    by (auto simp: DoStart_def Let_def chRuntimeNameOf_def sendNotificationToSup_def
          split: outcome.splits)
qed

theorem DoStart_return_before_notifyStart_witness:
  "DoStart \<lparr>GetName = ''one'', GetTag = Worker, DoesCapturePanic = False,
             Start = \<lparr>calls = [], finish = Returns None\<rparr>\<rparr>
        ''root'' \<lparr>supNotifyCh = Some 0, terminateCh = None, pick = True\<rparr> 7 = Blocks \<and>
   map chNotification
     (posted (childGoroutine \<lparr>GetName = ''one'', GetTag = Worker, DoesCapturePanic = False,
             Start = \<lparr>calls = [], finish = Returns None\<rparr>\<rparr> ''root/one''
        \<lparr>supNotifyCh = Some 0, terminateCh = None, pick = True\<rparr>)) =
     [\<lparr>name = ''one'', tag = Worker, runtimeName = ''root/one'', err = None\<rparr>]"
  using DoStart_return_before_notifyStart [where
      chSpec = "\<lparr>GetName = ''one'', GetTag = Worker, DoesCapturePanic = False,
             Start = \<lparr>calls = [], finish = Returns None\<rparr>\<rparr>" and e = None
      and supName = "''root''"
      and rcv = "\<lparr>supNotifyCh = Some 0, terminateCh = None, pick = True\<rparr>" and now = 7]
  by (simp add: chRuntimeNameOf_def)

subsection \<open>Waiting with a timeout\<close>

text \<open>
  The child below starts, then returns; its notification is taken by the
  supervision loop, the goroutine ends and closes the terminate channel. A wait
  with a timeout of 5 on the handle \<open>DoStart\<close> returned then gets no notification
  and returns nil at once, not the timeout error.
\<close>

theorem wait_timeout_counterexample:
  "DoStart \<lparr>GetName = ''one'', GetTag = Worker, DoesCapturePanic = False,
             Start = \<lparr>calls = [None], finish = Returns None\<rparr>\<rparr>
        ''root'' \<lparr>supNotifyCh = Some 0, terminateCh = None, pick = True\<rparr> 7
     = Returns
         (\<lparr>runtimeName = ''root/one'', createdAt = 7,
           spec = Some \<lparr>GetName = ''one'', GetTag = Worker, DoesCapturePanic = False,
             Start = \<lparr>calls = [None], finish = Returns None\<rparr>\<rparr>,
           cancel = True, wait = Some (waitTimeout Closes)\<rparr>, None) \<and>
   waitTimeout Closes \<lparr>Shutdown.tag = timeoutT, duration = 5\<rparr> 0 True = Returns None \<and>
   waitTimeout Closes \<lparr>Shutdown.tag = timeoutT, duration = 5\<rparr> 0 True
     \<noteq> Returns (Some (Error ''child shutdown timeout''))"
  by (simp add: DoStart_def Let_def childGoroutine_def notifyStart_def closeStartCh_def
        afterSend_def sendNotificationToSup_def select2_def terminateChOf_def
        waitTimeout_def time_After_def)

text \<open>
  Claim C6, as the code has it. For every handle \<open>DoStart\<close> returns, a wait with
  the policy \<open>Timeout(d)\<close> returns the error of the terminal notification when that
  notification reaches the terminate channel before \<open>d\<close> has passed, and returns the
  timeout error \<open>child shutdown timeout\<close> when neither a notification nor the close
  of the channel comes before \<open>d\<close> has passed (it comes later, or never). A
  channel closed before \<open>d\<close> has passed makes the wait return nil.
\<close>

theorem wait_timeout:
  assumes "DoStart chSpec supName rcv now = Returns (h, None)"
    and "Shutdown.tag shutdown = timeoutT"
  shows
    "\<exists>w. wait h = Some w \<and>
       (\<forall>n. terminateChOf (childGoroutine chSpec (chRuntimeNameOf supName chSpec) rcv)
              = Sends n \<and> int at < duration shutdown \<longrightarrow>
            w shutdown at p = Returns (err n)) \<and>
       (terminateChOf (childGoroutine chSpec (chRuntimeNameOf supName chSpec) rcv)
              = Silent \<or> max 0 (duration shutdown) < int at \<longrightarrow>
            w shutdown at p = Returns (Some (Error ''child shutdown timeout''))) \<and>
       (terminateChOf (childGoroutine chSpec (chRuntimeNameOf supName chSpec) rcv)
              = Closes \<and> int at < duration shutdown \<longrightarrow>
            w shutdown at p = Returns None)"
  using DoStart_handle [OF assms(1)] waitTimeout_Sends_in_time [OF assms(2)]
    waitTimeout_late [OF assms(2)] waitTimeout_Closes_in_time [OF assms(2)]
  by simp

text \<open>
  A child that fails after its start while the supervisor is waiting for it, and a
  child that never returns.
\<close>

theorem wait_timeout_witness:
  "DoStart \<lparr>GetName = ''one'', GetTag = Worker, DoesCapturePanic = False,
             Start = \<lparr>calls = [None], finish = Returns (Some (Error ''failed''))\<rparr>\<rparr>
        ''root'' \<lparr>supNotifyCh = None, terminateCh = Some 2, pick = True\<rparr> 7
     = Returns
         (\<lparr>runtimeName = ''root/one'', createdAt = 7,
           spec = Some \<lparr>GetName = ''one'', GetTag = Worker, DoesCapturePanic = False,
             Start = \<lparr>calls = [None], finish = Returns (Some (Error ''failed''))\<rparr>\<rparr>,
           cancel = True,
           wait = Some (waitTimeout
             (Sends \<lparr>name = ''one'', tag = Worker, runtimeName = ''root/one'',
                     err = Some (Error ''failed'')\<rparr>))\<rparr>, None) \<and>
   waitTimeout
     (Sends \<lparr>name = ''one'', tag = Worker, runtimeName = ''root/one'',
             err = Some (Error ''failed'')\<rparr>)
     \<lparr>Shutdown.tag = timeoutT, duration = 5\<rparr> 2 True = Returns (Some (Error ''failed'')) \<and>
   waitTimeout Silent \<lparr>Shutdown.tag = timeoutT, duration = 5\<rparr> 2 True
     = Returns (Some (Error ''child shutdown timeout''))"
proof -
  let ?a = "\<lparr>GetName = ''one'', GetTag = Worker, DoesCapturePanic = False,
             Start = \<lparr>calls = [None], finish = Returns (Some (Error ''failed''))\<rparr>\<rparr>"
  let ?b = "\<lparr>GetName = ''one'', GetTag = Worker, DoesCapturePanic = False,
             Start = \<lparr>calls = [None], finish = Blocks\<rparr>\<rparr>"
  let ?ra = "\<lparr>supNotifyCh = None, terminateCh = Some 2, pick = True\<rparr>"
  let ?n = "\<lparr>name = ''one'', tag = Worker, runtimeName = ''root/one'',
             err = Some (Error ''failed'')\<rparr>"
  let ?s = "\<lparr>Shutdown.tag = timeoutT, duration = 5\<rparr>"
  have ga: "terminateChOf (childGoroutine ?a (chRuntimeNameOf ''root'' ?a) ?ra) = Sends ?n"
    by (simp add: chRuntimeNameOf_def childGoroutine_def notifyStart_def closeStartCh_def
          afterSend_def sendNotificationToSup_def select2_def terminateChOf_def)
  have gb: "terminateChOf (childGoroutine ?b (chRuntimeNameOf ''root'' ?b) ?ra) = Silent"
    by (simp add: chRuntimeNameOf_def childGoroutine_def notifyStart_def closeStartCh_def
          terminateChOf_def)
  have a: "DoStart ?a ''root'' ?ra 7 =
      Returns (\<lparr>runtimeName = ''root/one'', createdAt = 7, spec = Some ?a, cancel = True,
                wait = Some (waitTimeout (Sends ?n))\<rparr>, None)"
    using DoStart_nil_first [of ?a "[]" "''root''" ?ra 7] ga
    by (simp add: chRuntimeNameOf_def)
  have b: "DoStart ?b ''root'' ?ra 7 =
      Returns (\<lparr>runtimeName = ''root/one'', createdAt = 7, spec = Some ?b, cancel = True,
                wait = Some (waitTimeout Silent)\<rparr>, None)"
    using DoStart_nil_first [of ?b "[]" "''root''" ?ra 7] gb
    by (simp add: chRuntimeNameOf_def)
  show ?thesis
    using wait_timeout [OF a, of ?s 2 True] wait_timeout [OF b, of ?s 2 True] ga gb a
    by simp
qed

subsection \<open>Panics of the activity\<close>

text \<open>
  The activity below signals its start and then calls \<open>panic(nil)\<close>, and its spec
  captures panics. The deferred function recovers, finds a nil value and returns:
  no notification is posted, and the goroutine ends.
\<close>

theorem panic_after_start_counterexample:
  "posted (childGoroutine
      \<lparr>GetName = ''one'', GetTag = Worker, DoesCapturePanic = True,
        Start = \<lparr>calls = [None], finish = Panics PanicNil\<rparr>\<rparr>
      ''root/one'' \<lparr>supNotifyCh = Some 0, terminateCh = None, pick = True\<rparr>) = [] \<and>
   ending (childGoroutine
      \<lparr>GetName = ''one'', GetTag = Worker, DoesCapturePanic = True,
        Start = \<lparr>calls = [None], finish = Panics PanicNil\<rparr>\<rparr>
      ''root/one'' \<lparr>supNotifyCh = Some 0, terminateCh = None, pick = True\<rparr>) = Returns ()"
  by (simp add: childGoroutine_def notifyStart_def closeStartCh_def)

text \<open>
  Claim C7, as the code has it. Let the activity signal its start and then panic.
  With \<open>DoesCapturePanic\<close> a panic with a value other than nil is recovered and
  turned into an error (the value itself when it is an error, the error
  \<open>panic error: v\<close> otherwise), and the goroutine posts one notification that
  carries it, offered to the supervisor and to the terminate channel; the panic
  does not leave the goroutine. A panic with the value nil is recovered as well,
  but nothing is posted: the goroutine ends and its terminate channel is closed
  with nothing sent on it. Without \<open>DoesCapturePanic\<close> nothing is posted and the
  panic leaves the goroutine as it was raised.
\<close>

theorem panic_after_start:
  assumes "calls (Start chSpec) = [None]" and "finish (Start chSpec) = Panics panicVal"
  shows
    "(\<exists>h. DoStart chSpec supName rcv now = Returns (h, None)) \<and>
     (DoesCapturePanic chSpec \<and> panicVal \<noteq> PanicNil \<longrightarrow>
        posted (childGoroutine chSpec (chRuntimeNameOf supName chSpec) rcv) =
          [\<lparr>chNotification =
              \<lparr>name = GetName chSpec, tag = GetTag chSpec,
               runtimeName = chRuntimeNameOf supName chSpec,
               err = Some (panicErr panicVal)\<rparr>,
            ran = select2 (supNotifyCh rcv) (terminateCh rcv) (pick rcv)\<rparr>] \<and>
        ending (childGoroutine chSpec (chRuntimeNameOf supName chSpec) rcv)
          \<noteq> Panics panicVal) \<and>
     (DoesCapturePanic chSpec \<and> panicVal = PanicNil \<longrightarrow>
        posted (childGoroutine chSpec (chRuntimeNameOf supName chSpec) rcv) = [] \<and>
        ending (childGoroutine chSpec (chRuntimeNameOf supName chSpec) rcv) = Returns () \<and>
        terminateChOf (childGoroutine chSpec (chRuntimeNameOf supName chSpec) rcv)
          = Closes) \<and>
     (\<not> DoesCapturePanic chSpec \<longrightarrow>
        posted (childGoroutine chSpec (chRuntimeNameOf supName chSpec) rcv) = [] \<and>
        ending (childGoroutine chSpec (chRuntimeNameOf supName chSpec) rcv)
          = Panics panicVal) \<and>
     panicErr (PanicError e) = e \<and>
     panicErr (PanicOther v) = Error (''panic error: '' @ v)"
proof -
  let ?rn = "chRuntimeNameOf supName chSpec"
  have fin: "activityEnd chSpec = Panics panicVal"
    using assms by (simp add: activityEnd_single)
  have started: "\<exists>h. DoStart chSpec supName rcv now = Returns (h, None)"
    using DoStart_nil_first [OF assms(1)] by blast
  have captured: "posted (childGoroutine chSpec ?rn rcv) =
          [sendNotificationToSup (Some (panicErr panicVal)) chSpec ?rn rcv] \<and>
        ending (childGoroutine chSpec ?rn rcv) \<noteq> Panics panicVal"
    if "DoesCapturePanic chSpec" "panicVal \<noteq> PanicNil"
    using childGoroutine_Panics_captured [OF fin that, of ?rn rcv]
    by (metis posted_afterSend ending_afterSend outcome.distinct(3) outcome.distinct(5))
  have nil: "posted (childGoroutine chSpec ?rn rcv) = [] \<and>
        ending (childGoroutine chSpec ?rn rcv) = Returns () \<and>
        terminateChOf (childGoroutine chSpec ?rn rcv) = Closes"
    if "DoesCapturePanic chSpec" "panicVal = PanicNil"
    using childGoroutine_Panics_nil [of chSpec ?rn rcv] fin that
    by (simp add: terminateChOf_def)
  have uncaptured: "posted (childGoroutine chSpec ?rn rcv) = [] \<and>
        ending (childGoroutine chSpec ?rn rcv) = Panics panicVal"
    if "\<not> DoesCapturePanic chSpec"
    using childGoroutine_Panics_uncaptured [OF fin that] .
  have wrap: "panicErr (PanicError e) = e \<and>
      panicErr (PanicOther v) = Error (''panic error: '' @ v)"
    by (simp add: panicErr_def)
  from started captured nil uncaptured wrap show ?thesis
    by (simp add: sendNotificationToSup_def)
qed

text \<open>
  A captured panic with a value that is not an error, a captured \<open>panic(nil)\<close>, and
  a panic with an error that is not captured.
\<close>

theorem panic_after_start_witness:
  "posted (childGoroutine
      \<lparr>GetName = ''one'', GetTag = Worker, DoesCapturePanic = True,
        Start = \<lparr>calls = [None], finish = Panics (PanicOther ''crash'')\<rparr>\<rparr>
      ''root/one'' \<lparr>supNotifyCh = Some 0, terminateCh = None, pick = True\<rparr>) =
     [\<lparr>chNotification =
         \<lparr>name = ''one'', tag = Worker, runtimeName = ''root/one'',
          err = Some (Error ''panic error: crash'')\<rparr>,
       ran = First\<rparr>] \<and>
   terminateChOf (childGoroutine
      \<lparr>GetName = ''one'', GetTag = Worker, DoesCapturePanic = True,
        Start = \<lparr>calls = [None], finish = Panics PanicNil\<rparr>\<rparr>
      ''root/one'' \<lparr>supNotifyCh = Some 0, terminateCh = None, pick = True\<rparr>) = Closes \<and>
   ending (childGoroutine
      \<lparr>GetName = ''one'', GetTag = Worker, DoesCapturePanic = False,
        Start = \<lparr>calls = [None], finish = Panics (PanicError (Error ''bad''))\<rparr>\<rparr>
      ''root/one'' \<lparr>supNotifyCh = Some 0, terminateCh = None, pick = True\<rparr>) =
     Panics (PanicError (Error ''bad''))"
  using
    panic_after_start [where
      chSpec = "\<lparr>GetName = ''one'', GetTag = Worker, DoesCapturePanic = True,
        Start = \<lparr>calls = [None], finish = Panics (PanicOther ''crash'')\<rparr>\<rparr>"
      and panicVal = "PanicOther ''crash''" and supName = "''root''"
      and rcv = "\<lparr>supNotifyCh = Some 0, terminateCh = None, pick = True\<rparr>"]
    panic_after_start [where
      chSpec = "\<lparr>GetName = ''one'', GetTag = Worker, DoesCapturePanic = True,
        Start = \<lparr>calls = [None], finish = Panics PanicNil\<rparr>\<rparr>"
      and panicVal = "PanicNil" and supName = "''root''"
      and rcv = "\<lparr>supNotifyCh = Some 0, terminateCh = None, pick = True\<rparr>"]
    panic_after_start [where
      chSpec = "\<lparr>GetName = ''one'', GetTag = Worker, DoesCapturePanic = False,
        Start = \<lparr>calls = [None], finish = Panics (PanicError (Error ''bad''))\<rparr>\<rparr>"
      and panicVal = "PanicError (Error ''bad'')" and supName = "''root''"
      and rcv = "\<lparr>supNotifyCh = Some 0, terminateCh = None, pick = True\<rparr>"]
  by (simp add: chRuntimeNameOf_def panicErr_def select2_def)

subsection \<open>Runtime names\<close>

text \<open>
  Claim C8. The handle of a started child carries the supervisor's name and the
  spec's name joined by \<open>/\<close>. The name depends on nothing else: whatever the
  receivers, the instant and the run of the start function, a second start of a
  spec of that name under that supervisor (a restart) gives the same runtime name.
\<close>

theorem DoStart_runtime_name:
  assumes "DoStart chSpec supName rcv now = Returns (h, None)"
    and "DoStart chSpec' supName rcv' now' = Returns (h', None)"
    and "GetName chSpec' = GetName chSpec"
  shows "Child.runtimeName h = strings_Join [supName, GetName chSpec] ''/'' \<and>
         Child.runtimeName h = supName @ ''/'' @ GetName chSpec \<and>
         Child.runtimeName h' = Child.runtimeName h"
  using runtimeName_of_started [OF assms(1)] runtimeName_of_started [OF assms(2)] assms(3)
  by simp

text \<open>
  A first start of \<open>child1\<close> under \<open>root/subtree1\<close> that fails after it started,
  and its restart.
\<close>

theorem DoStart_runtime_name_witness:
  "DoStart \<lparr>GetName = ''child1'', GetTag = Worker, DoesCapturePanic = False,
             Start = \<lparr>calls = [None], finish = Returns (Some (Error ''failed''))\<rparr>\<rparr>
        ''root/subtree1'' \<lparr>supNotifyCh = Some 0, terminateCh = None, pick = True\<rparr> 7
     = Returns
         (\<lparr>runtimeName = ''root/subtree1/child1'', createdAt = 7,
           spec = Some \<lparr>GetName = ''child1'', GetTag = Worker, DoesCapturePanic = False,
             Start = \<lparr>calls = [None], finish = Returns (Some (Error ''failed''))\<rparr>\<rparr>,
           cancel = True, wait = Some (waitTimeout Closes)\<rparr>, None) \<and>
   DoStart \<lparr>GetName = ''child1'', GetTag = Worker, DoesCapturePanic = False,
             Start = \<lparr>calls = [None], finish = Returns None\<rparr>\<rparr>
        ''root/subtree1'' \<lparr>supNotifyCh = None, terminateCh = Some 2, pick = True\<rparr> 9
     = Returns
         (\<lparr>runtimeName = ''root/subtree1/child1'', createdAt = 9,
           spec = Some \<lparr>GetName = ''child1'', GetTag = Worker, DoesCapturePanic = False,
             Start = \<lparr>calls = [None], finish = Returns None\<rparr>\<rparr>,
           cancel = True,
           wait = Some (waitTimeout (Sends \<lparr>name = ''child1'', tag = Worker,
                    runtimeName = ''root/subtree1/child1'', err = None\<rparr>))\<rparr>, None) \<and>
   strings_Join [''root/subtree1'', ''child1''] ''/'' = ''root/subtree1/child1''"
proof -
  let ?a = "\<lparr>GetName = ''child1'', GetTag = Worker, DoesCapturePanic = False,
             Start = \<lparr>calls = [None], finish = Returns (Some (Error ''failed''))\<rparr>\<rparr>"
  let ?b = "\<lparr>GetName = ''child1'', GetTag = Worker, DoesCapturePanic = False,
             Start = \<lparr>calls = [None], finish = Returns None\<rparr>\<rparr>"
  let ?ra = "\<lparr>supNotifyCh = Some 0, terminateCh = None, pick = True\<rparr>"
  let ?rb = "\<lparr>supNotifyCh = None, terminateCh = Some 2, pick = True\<rparr>"
  let ?ha = "\<lparr>runtimeName = ''root/subtree1/child1'', createdAt = 7,
           spec = Some ?a, cancel = True, wait = Some (waitTimeout Closes)\<rparr>"
  let ?hb = "\<lparr>runtimeName = ''root/subtree1/child1'', createdAt = 9,
           spec = Some ?b, cancel = True,
           wait = Some (waitTimeout (Sends \<lparr>name = ''child1'', tag = Worker,
                    runtimeName = ''root/subtree1/child1'', err = None\<rparr>))\<rparr>"
  have a: "DoStart ?a ''root/subtree1'' ?ra 7 = Returns (?ha, None)"
    by (simp add: DoStart_def Let_def childGoroutine_def notifyStart_def closeStartCh_def
          afterSend_def sendNotificationToSup_def select2_def terminateChOf_def)
  have b: "DoStart ?b ''root/subtree1'' ?rb 9 = Returns (?hb, None)"
    by (simp add: DoStart_def Let_def childGoroutine_def notifyStart_def closeStartCh_def
          afterSend_def sendNotificationToSup_def select2_def terminateChOf_def)
  from DoStart_runtime_name [OF a b] a b show ?thesis by simp
qed

subsection \<open>The terminal notification\<close>

text \<open>
  The first child below reports a start error through the callback and returns it.
  \<open>DoStart\<close> has returned the zero handle, so no wait reads the terminate channel;
  when no receiver takes from the supervisor's channel either, the goroutine builds
  its notification and stays in the select: no consumer receives it. The second
  child calls \<open>panic(nil)\<close> after its start and its spec captures panics: the
  panic is recovered and no notification is built at all.
\<close>

theorem terminal_notification_counterexample:
  "posted (childGoroutine
      \<lparr>GetName = ''child3'', GetTag = Worker, DoesCapturePanic = False,
        Start = \<lparr>calls = [Some (Error ''FailStartChild'')],
                  finish = Returns (Some (Error ''FailStartChild''))\<rparr>\<rparr>
      ''root/branch1/child3'' \<lparr>supNotifyCh = None, terminateCh = None, pick = True\<rparr>) =
     [\<lparr>chNotification =
         \<lparr>name = ''child3'', tag = Worker, runtimeName = ''root/branch1/child3'',
          err = Some (Error ''FailStartChild'')\<rparr>,
       ran = Neither\<rparr>] \<and>
   ending (childGoroutine
      \<lparr>GetName = ''child3'', GetTag = Worker, DoesCapturePanic = False,
        Start = \<lparr>calls = [Some (Error ''FailStartChild'')],
                  finish = Returns (Some (Error ''FailStartChild''))\<rparr>\<rparr>
      ''root/branch1/child3'' \<lparr>supNotifyCh = None, terminateCh = None, pick = True\<rparr>) =
     Blocks \<and>
   posted (childGoroutine
      \<lparr>GetName = ''one'', GetTag = Worker, DoesCapturePanic = True,
        Start = \<lparr>calls = [None], finish = Panics PanicNil\<rparr>\<rparr>
      ''root/one'' \<lparr>supNotifyCh = Some 0, terminateCh = None, pick = True\<rparr>) = []"
  by (simp add: childGoroutine_def notifyStart_def sendStartCh_def closeStartCh_def
        afterSend_def sendNotificationToSup_def select2_def)

text \<open>
  Claim C9, as the code has it. When the activity ends by a return (of nil or of an
  error) or by a captured panic with a value other than nil, the goroutine builds
  exactly one notification, with the spec's name, the spec's tag, the child's
  runtime name and the terminal error (the value returned, or the error made of
  the panic); after a captured panic with the value nil it builds none. The one
  value is offered on both channels by a select without priority. At most one
  consumer receives it: the supervisor's channel only if a receiver takes from it,
  the terminate channel only if a receiver takes from it, either of them when both
  are ready at the same instant, and none exactly when no receiver ever takes from
  either channel.
\<close>

theorem terminal_notification:
  "(activityEnd chSpec = Returns e \<or>
      activityEnd chSpec = Panics panicVal \<and> DoesCapturePanic chSpec \<and>
      panicVal \<noteq> PanicNil \<and> e = Some (panicErr panicVal) \<longrightarrow>
      posted (childGoroutine chSpec chRuntimeName rcv) =
        [\<lparr>chNotification =
            \<lparr>name = GetName chSpec, tag = GetTag chSpec,
             runtimeName = chRuntimeName, err = e\<rparr>,
          ran = select2 (supNotifyCh rcv) (terminateCh rcv) (pick rcv)\<rparr>]) \<and>
   (activityEnd chSpec = Panics PanicNil \<and> DoesCapturePanic chSpec \<longrightarrow>
      posted (childGoroutine chSpec chRuntimeName rcv) = []) \<and>
   (length (calls (Start chSpec)) \<le> 1 \<longrightarrow> activityEnd chSpec = finish (Start chSpec)) \<and>
   (select2 (supNotifyCh rcv) (terminateCh rcv) (pick rcv) = Neither
      \<longleftrightarrow> supNotifyCh rcv = None \<and> terminateCh rcv = None) \<and>
   (select2 (supNotifyCh rcv) (terminateCh rcv) (pick rcv) = First
      \<longrightarrow> supNotifyCh rcv \<noteq> None) \<and>
   (select2 (supNotifyCh rcv) (terminateCh rcv) (pick rcv) = Second
      \<longrightarrow> terminateCh rcv \<noteq> None) \<and>
   select2 (Some t) (Some t) p = (if p then First else Second)"
proof -
  have a: "posted (childGoroutine chSpec chRuntimeName rcv) =
        [sendNotificationToSup e chSpec chRuntimeName rcv]"
    if "activityEnd chSpec = Returns e"
    using childGoroutine_Returns [OF that, of chRuntimeName rcv] posted_afterSend by metis
  have b: "posted (childGoroutine chSpec chRuntimeName rcv) =
        [sendNotificationToSup e chSpec chRuntimeName rcv]"
    if "activityEnd chSpec = Panics panicVal" "DoesCapturePanic chSpec"
      "panicVal \<noteq> PanicNil" "e = Some (panicErr panicVal)"
    using childGoroutine_Panics_captured [OF that(1,2,3), of chRuntimeName rcv]
      posted_afterSend that(4) by metis
  have c: "posted (childGoroutine chSpec chRuntimeName rcv) = []"
    if "activityEnd chSpec = Panics PanicNil" "DoesCapturePanic chSpec"
    using childGoroutine_Panics_nil [OF that, of chRuntimeName rcv] by simp
  show ?thesis
    using a b c activityEnd_single [of chSpec]
      select2_Neither [of "supNotifyCh rcv" "terminateCh rcv" "pick rcv"]
      select2_First [of "supNotifyCh rcv" "terminateCh rcv" "pick rcv"]
      select2_Second [of "supNotifyCh rcv" "terminateCh rcv" "pick rcv"]
      select2_tie [of t p]
    by (auto simp: sendNotificationToSup_def)
qed

text \<open>
  A child that fails after its start while the supervision loop is receiving, and a
  child whose panic is captured while the supervisor waits for it.
\<close>

theorem terminal_notification_witness:
  "posted (childGoroutine
      \<lparr>GetName = ''child1'', GetTag = Worker, DoesCapturePanic = False,
        Start = \<lparr>calls = [None], finish = Returns (Some (Error ''failed''))\<rparr>\<rparr>
      ''root/child1'' \<lparr>supNotifyCh = Some 0, terminateCh = None, pick = True\<rparr>) =
     [\<lparr>chNotification =
         \<lparr>name = ''child1'', tag = Worker, runtimeName = ''root/child1'',
          err = Some (Error ''failed'')\<rparr>,
       ran = First\<rparr>] \<and>
   posted (childGoroutine
      \<lparr>GetName = ''one'', GetTag = Worker, DoesCapturePanic = True,
        Start = \<lparr>calls = [None], finish = Panics (PanicError (Error ''bad''))\<rparr>\<rparr>
      ''root/one'' \<lparr>supNotifyCh = None, terminateCh = Some 4, pick = True\<rparr>) =
     [\<lparr>chNotification =
         \<lparr>name = ''one'', tag = Worker, runtimeName = ''root/one'',
          err = Some (Error ''bad'')\<rparr>,
       ran = Second\<rparr>]"
proof -
  let ?a = "\<lparr>GetName = ''child1'', GetTag = Worker, DoesCapturePanic = False,
        Start = \<lparr>calls = [None], finish = Returns (Some (Error ''failed''))\<rparr>\<rparr>"
  let ?b = "\<lparr>GetName = ''one'', GetTag = Worker, DoesCapturePanic = True,
        Start = \<lparr>calls = [None], finish = Panics (PanicError (Error ''bad''))\<rparr>\<rparr>"
  have a: "activityEnd ?a = Returns (Some (Error ''failed''))"
    by (simp add: activityEnd_def notifyStart_def closeStartCh_def)
  have b: "activityEnd ?b = Panics (PanicError (Error ''bad''))"
    by (simp add: activityEnd_def notifyStart_def closeStartCh_def)
  show ?thesis
    using
      terminal_notification [where chSpec = ?a and e = "Some (Error ''failed'')"
        and chRuntimeName = "''root/child1''"
        and rcv = "\<lparr>supNotifyCh = Some 0, terminateCh = None, pick = True\<rparr>"]
      terminal_notification [where chSpec = ?b and e = "Some (Error ''bad'')"
        and panicVal = "PanicError (Error ''bad'')"
        and chRuntimeName = "''root/one''"
        and rcv = "\<lparr>supNotifyCh = None, terminateCh = Some 4, pick = True\<rparr>"]
      a b
    by (simp add: select2_def panicErr_def)
qed

subsection \<open>A terminate channel closed without a notification\<close>

text \<open>
  Claim C10. When the notification of a child that returned, or whose panic was
  captured, was taken from the supervisor's channel, the goroutine ends and its
  terminate channel is closed with nothing sent on it. On a terminate channel closed that way the wait of the
  handle returns nil, under the policy \<open>Indefinitely\<close> and under \<open>Timeout(d)\<close> when
  the close comes before \<open>d\<close> has passed: never an error.
\<close>

theorem wait_on_closed_channel:
  assumes "DoStart chSpec supName rcv now = Returns (h, None)"
  shows
    "((activityEnd chSpec = Returns e \<or>
       activityEnd chSpec = Panics panicVal \<and> DoesCapturePanic chSpec) \<and>
      select2 (supNotifyCh rcv) (terminateCh rcv) (pick rcv) = First \<longrightarrow>
        terminateChOf (childGoroutine chSpec (chRuntimeNameOf supName chSpec) rcv) = Closes) \<and>
     (terminateChOf (childGoroutine chSpec (chRuntimeNameOf supName chSpec) rcv) = Closes \<longrightarrow>
        (\<exists>w. wait h = Some w \<and>
           (Shutdown.tag shutdown = indefinitelyT \<longrightarrow> w shutdown at p = Returns None) \<and>
           (Shutdown.tag shutdown = timeoutT \<and> int at < duration shutdown \<longrightarrow>
              w shutdown at p = Returns None)))"
proof -
  let ?rn = "chRuntimeNameOf supName chSpec"
  let ?g = "childGoroutine chSpec ?rn rcv"
  have sent: "terminateChOf (afterSend ch (sendNotificationToSup e' chSpec ?rn rcv)) = Closes"
    if "select2 (supNotifyCh rcv) (terminateCh rcv) (pick rcv) = First" for ch e'
    using that by (simp add: terminateChOf_afterSend sendNotificationToSup_def)
  have returned: "terminateChOf ?g = Closes"
    if "activityEnd chSpec = Returns e"
      "select2 (supNotifyCh rcv) (terminateCh rcv) (pick rcv) = First"
    using childGoroutine_Returns [OF that(1), of ?rn rcv] sent [OF that(2)] by metis
  have panicked: "terminateChOf ?g = Closes"
    if "activityEnd chSpec = Panics panicVal" "DoesCapturePanic chSpec"
      "select2 (supNotifyCh rcv) (terminateCh rcv) (pick rcv) = First"
  proof (cases "panicVal = PanicNil")
    case True
    then show ?thesis
      using childGoroutine_Panics_nil [of chSpec ?rn rcv] that(1,2)
      by (simp add: terminateChOf_def)
  next
    case False
    then show ?thesis
      using childGoroutine_Panics_captured [OF that(1,2), of ?rn rcv] sent [OF that(3)]
      by metis
  qed
  show ?thesis
    using returned panicked DoStart_handle [OF assms]
      waitTimeout_Closes_indefinitely [of shutdown at p]
      waitTimeout_Closes_in_time [of shutdown at p]
    by auto
qed

theorem wait_on_closed_channel_witness:
  "terminateChOf (childGoroutine
      \<lparr>GetName = ''one'', GetTag = Worker, DoesCapturePanic = False,
        Start = \<lparr>calls = [None], finish = Returns None\<rparr>\<rparr>
      ''root/one'' \<lparr>supNotifyCh = Some 0, terminateCh = None, pick = True\<rparr>) = Closes \<and>
   waitTimeout Closes \<lparr>Shutdown.tag = indefinitelyT, duration = 0\<rparr> 3 True = Returns None \<and>
   waitTimeout Closes \<lparr>Shutdown.tag = timeoutT, duration = 5\<rparr> 3 True = Returns None"
proof -
  let ?a = "\<lparr>GetName = ''one'', GetTag = Worker, DoesCapturePanic = False,
             Start = \<lparr>calls = [None], finish = Returns None\<rparr>\<rparr>"
  let ?ra = "\<lparr>supNotifyCh = Some 0, terminateCh = None, pick = True\<rparr>"
  have e: "activityEnd ?a = Returns None"
    by (simp add: activityEnd_def notifyStart_def closeStartCh_def)
  have s: "select2 (supNotifyCh ?ra) (terminateCh ?ra) (pick ?ra) = First"
    by (simp add: select2_def)
  have a: "DoStart ?a ''root'' ?ra 7 =
      Returns (\<lparr>runtimeName = chRuntimeNameOf ''root'' ?a, createdAt = 7, spec = Some ?a,
                cancel = True,
                wait = Some (waitTimeout (terminateChOf
                   (childGoroutine ?a (chRuntimeNameOf ''root'' ?a) ?ra)))\<rparr>, None)"
    by (rule DoStart_nil_first [of ?a "[]"]) simp
  show ?thesis
    using
      wait_on_closed_channel [OF a, where e = None and at = 3 and p = True
        and shutdown = "\<lparr>Shutdown.tag = indefinitelyT, duration = 0\<rparr>"]
      wait_on_closed_channel [OF a, where e = None and at = 3 and p = True
        and shutdown = "\<lparr>Shutdown.tag = timeoutT, duration = 5\<rparr>"]
      e s
    by (simp add: chRuntimeNameOf_def)
qed

section \<open>Properties of the supervisor procedures\<close>

lemma terminateChildren_concat:
  "terminateChildren hs = concat (map terminateNode hs)"
  by (induction hs) simp_all

lemma startChildren_all_ok:
  assumes "\<And>c rn. c \<in> set cs \<Longrightarrow> startNode rn c = (startedEvents rn c, Inr (handleOf rn c))"
  shows "startChildren supName cs running =
           (concat (map (\<lambda>c. startedEvents (strings_Join [supName, nodeName c] ''/'') c) cs),
            Inr (rev (map (\<lambda>c. handleOf (strings_Join [supName, nodeName c] ''/'') c) cs)
                  @ running))"
  using assms
proof (induction cs arbitrary: running)
  case Nil
  show ?case by simp
next
  case (Cons c cs)
  have c: "startNode (strings_Join [supName, nodeName c] ''/'') c =
      (startedEvents (strings_Join [supName, nodeName c] ''/'') c,
       Inr (handleOf (strings_Join [supName, nodeName c] ''/'') c))"
    using Cons.prems by simp
  have rest: "startChildren supName cs (h # running) =
           (concat (map (\<lambda>c. startedEvents (strings_Join [supName, nodeName c] ''/'') c) cs),
            Inr (rev (map (\<lambda>c. handleOf (strings_Join [supName, nodeName c] ''/'') c) cs)
                  @ h # running))" for h
    using Cons.IH [of "h # running"] Cons.prems by simp
  show ?case
    by (simp only: startChildren.simps c rest) simp
qed

lemma startNode_all_ok:
  "startsOk c \<Longrightarrow> startNode rn c = (startedEvents rn c, Inr (handleOf rn c))"
proof (induction c arbitrary: rn)
  case (WorkerNode n ok)
  then show ?case by simp
next
  case (SupervisorNode n ord cs)
  have "startNode rn' c = (startedEvents rn' c, Inr (handleOf rn' c))"
    if "c \<in> set (startOrder ord cs)" for c rn'
    using that SupervisorNode by (simp add: list_all_iff)
  from startChildren_all_ok [of "startOrder ord cs" rn "[]", OF this]
  show ?case by simp
qed

lemma terminateNode_handleOf:
  "terminateNode (handleOf rn c) = stoppedEvents rn c"
proof (induction c arbitrary: rn)
  case (WorkerNode n ok)
  show ?case by simp
next
  case (SupervisorNode n ord cs)
  have "map terminateNode
          (rev (map (\<lambda>c. handleOf (strings_Join [rn, nodeName c] ''/'') c) (startOrder ord cs)))
        = map (\<lambda>c. stoppedEvents (strings_Join [rn, nodeName c] ''/'') c)
            (rev (startOrder ord cs))"
    using SupervisorNode by (simp add: rev_map)
  then show ?case
    by (simp add: terminateChildren_concat)
qed

lemma workersStarted_append:
  "workersStarted (xs @ ys) = workersStarted xs @ workersStarted ys"
  by (induction xs rule: workersStarted.induct) simp_all

lemma workersStopped_append:
  "workersStopped (xs @ ys) = workersStopped xs @ workersStopped ys"
  by (induction xs rule: workersStopped.induct) simp_all

lemma workersStarted_concat:
  "workersStarted (concat xss) = concat (map workersStarted xss)"
  by (induction xss) (simp_all add: workersStarted_append)

lemma workersStopped_concat:
  "workersStopped (concat xss) = concat (map workersStopped xss)"
  by (induction xss) (simp_all add: workersStopped_append)

lemma workers_stop_in_reverse:
  "workersStopped (stoppedEvents rn c) = rev (workersStarted (startedEvents rn c))"
proof (induction c arbitrary: rn)
  case (WorkerNode n ok)
  show ?case by simp
next
  case (SupervisorNode n ord cs)
  let ?xs = "startOrder ord cs"
  let ?f = "\<lambda>c. workersStopped (stoppedEvents (strings_Join [rn, nodeName c] ''/'') c)"
  let ?g = "\<lambda>c. workersStarted (startedEvents (strings_Join [rn, nodeName c] ''/'') c)"
  have "map ?f (rev ?xs) = map (\<lambda>c. rev (?g c)) (rev ?xs)"
    using SupervisorNode by (intro map_cong) simp_all
  then have eq: "concat (map ?f (rev ?xs)) = rev (concat (map ?g ?xs))"
    by (simp only: rev_concat rev_map map_map comp_def)
  have "workersStopped (stoppedEvents rn (SupervisorNode n ord cs)) = concat (map ?f (rev ?xs))"
    by (simp add: workersStopped_append workersStopped_concat comp_def)
  moreover have "workersStarted (startedEvents rn (SupervisorNode n ord cs))
      = concat (map ?g ?xs)"
    by (simp add: workersStarted_append workersStarted_concat comp_def)
  ultimately show ?case using eq by simp
qed

text \<open>
  Claim C4. Let every node of a subtree start. The start procedure then emits, for
  a supervisor with children C1 ... Cn in start order, the start sequences of C1 to
  Cn followed by the supervisor's own started event, and the termination procedure
  run on the live tree it returns emits the stop sequences of Cn down to C1
  followed by the supervisor's own terminated event; both hold at every nested
  supervisor, since the two sequences are those of the ordering rule. The workers
  are stopped in the exact reverse of the order they were started in.
\<close>

theorem start_stop_order:
  assumes "startsOk t"
  shows "fst (startNode rn t) = startedEvents rn t \<and>
         snd (startNode rn t) = Inr (handleOf rn t) \<and>
         terminateNode (handleOf rn t) = stoppedEvents rn t \<and>
         workersStopped (stoppedEvents rn t) = rev (workersStarted (startedEvents rn t))"
  using startNode_all_ok [OF assms, of rn] terminateNode_handleOf [of rn t]
    workers_stop_in_reverse [of rn t]
  by simp

text \<open>
  The tree of TestStartNestedSupervisors, and the tree of
  TestStartMutlipleChildrenRightToLeft, with the event sequences the tests expect.
\<close>

theorem start_stop_order_witness:
  "startRoot
     (SupervisorNode ''root'' LeftToRight
        [SupervisorNode ''branch0'' LeftToRight
           [WorkerNode ''child0'' True, WorkerNode ''child1'' True],
         SupervisorNode ''branch1'' LeftToRight
           [WorkerNode ''child2'' True, WorkerNode ''child3'' True]]) =
     ([WorkerStarted ''root/branch0/child0'', WorkerStarted ''root/branch0/child1'',
       SupervisorStarted ''root/branch0'',
       WorkerStarted ''root/branch1/child2'', WorkerStarted ''root/branch1/child3'',
       SupervisorStarted ''root/branch1'',
       SupervisorStarted ''root''],
      Inr (SupervisorHandle ''root''
        [SupervisorHandle ''root/branch1''
           [WorkerHandle ''root/branch1/child3'', WorkerHandle ''root/branch1/child2''],
         SupervisorHandle ''root/branch0''
           [WorkerHandle ''root/branch0/child1'', WorkerHandle ''root/branch0/child0'']])) \<and>
   terminateNode (SupervisorHandle ''root''
        [SupervisorHandle ''root/branch1''
           [WorkerHandle ''root/branch1/child3'', WorkerHandle ''root/branch1/child2''],
         SupervisorHandle ''root/branch0''
           [WorkerHandle ''root/branch0/child1'', WorkerHandle ''root/branch0/child0'']]) =
     [WorkerTerminated ''root/branch1/child3'', WorkerTerminated ''root/branch1/child2'',
      SupervisorTerminated ''root/branch1'',
      WorkerTerminated ''root/branch0/child1'', WorkerTerminated ''root/branch0/child0'',
      SupervisorTerminated ''root/branch0'',
      SupervisorTerminated ''root''] \<and>
   fst (startRoot
     (SupervisorNode ''root'' RightToLeft
        [WorkerNode ''child0'' True, WorkerNode ''child1'' True, WorkerNode ''child2'' True])) =
     [WorkerStarted ''root/child2'', WorkerStarted ''root/child1'',
      WorkerStarted ''root/child0'', SupervisorStarted ''root''] \<and>
   snd (startRoot
     (SupervisorNode ''root'' RightToLeft
        [WorkerNode ''child0'' True, WorkerNode ''child1'' True, WorkerNode ''child2'' True])) =
     Inr (SupervisorHandle ''root''
       [WorkerHandle ''root/child0'', WorkerHandle ''root/child1'',
        WorkerHandle ''root/child2'']) \<and>
   terminateNode (SupervisorHandle ''root''
       [WorkerHandle ''root/child0'', WorkerHandle ''root/child1'',
        WorkerHandle ''root/child2'']) =
     [WorkerTerminated ''root/child0'', WorkerTerminated ''root/child1'',
      WorkerTerminated ''root/child2'', SupervisorTerminated ''root'']"
proof -
  let ?nested = "SupervisorNode ''root'' LeftToRight
        [SupervisorNode ''branch0'' LeftToRight
           [WorkerNode ''child0'' True, WorkerNode ''child1'' True],
         SupervisorNode ''branch1'' LeftToRight
           [WorkerNode ''child2'' True, WorkerNode ''child3'' True]]"
  let ?rtl = "SupervisorNode ''root'' RightToLeft
        [WorkerNode ''child0'' True, WorkerNode ''child1'' True, WorkerNode ''child2'' True]"
  have a: "startsOk ?nested" by simp
  have b: "startsOk ?rtl" by simp
  have n: "startRoot ?nested =
     ([WorkerStarted ''root/branch0/child0'', WorkerStarted ''root/branch0/child1'',
       SupervisorStarted ''root/branch0'',
       WorkerStarted ''root/branch1/child2'', WorkerStarted ''root/branch1/child3'',
       SupervisorStarted ''root/branch1'',
       SupervisorStarted ''root''],
      Inr (SupervisorHandle ''root''
        [SupervisorHandle ''root/branch1''
           [WorkerHandle ''root/branch1/child3'', WorkerHandle ''root/branch1/child2''],
         SupervisorHandle ''root/branch0''
           [WorkerHandle ''root/branch0/child1'', WorkerHandle ''root/branch0/child0'']]))"
    by (simp add: startRoot_def startOrder_def)
  show ?thesis
    using start_stop_order [OF a, of "''root''"] start_stop_order [OF b, of "''root''"] n
    by (simp add: startRoot_def startOrder_def)
qed

subsection \<open>A child that fails to start\<close>

lemma startChildren_fail_at:
  assumes "list_all startsOk pre"
    and "snd (startNode (strings_Join [supName, nodeName ck] ''/'') ck) = Inl e"
  shows "startChildren supName (pre @ ck # post) running =
     (concat (map (\<lambda>c. startedEvents (strings_Join [supName, nodeName c] ''/'') c) pre)
      @ fst (startNode (strings_Join [supName, nodeName ck] ''/'') ck)
      @ terminateChildren
          (rev (map (\<lambda>c. handleOf (strings_Join [supName, nodeName c] ''/'') c) pre) @ running),
      Inl e)"
  using assms(1)
proof (induction pre arbitrary: running)
  case Nil
  show ?case using assms(2)
    by (cases "startNode (strings_Join [supName, nodeName ck] ''/'') ck") simp
next
  case (Cons c pre)
  have c: "startNode (strings_Join [supName, nodeName c] ''/'') c =
      (startedEvents (strings_Join [supName, nodeName c] ''/'') c,
       Inr (handleOf (strings_Join [supName, nodeName c] ''/'') c))"
    using Cons.prems by (simp add: startNode_all_ok)
  have rest: "startChildren supName (pre @ ck # post) (h # running) =
     (concat (map (\<lambda>c. startedEvents (strings_Join [supName, nodeName c] ''/'') c) pre)
      @ fst (startNode (strings_Join [supName, nodeName ck] ''/'') ck)
      @ terminateChildren
          (rev (map (\<lambda>c. handleOf (strings_Join [supName, nodeName c] ''/'') c) pre)
           @ h # running),
      Inl e)" for h
    using Cons.IH [of "h # running"] Cons.prems by simp
  show ?case
    by (simp only: append_Cons startChildren.simps c rest) simp
qed

lemma startChildren_fails:
  assumes "\<And>c rn. c \<in> set cs \<Longrightarrow> \<not> startsOk c \<Longrightarrow> isl (snd (startNode rn c))"
    and "\<not> list_all startsOk cs"
  shows "isl (snd (startChildren supName cs running))"
  using assms
proof (induction cs arbitrary: running)
  case Nil
  then show ?case by simp
next
  case (Cons c cs)
  show ?case
  proof (cases "startsOk c")
    case True
    then have "\<not> list_all startsOk cs" using Cons.prems(2) by simp
    then have "isl (snd (startChildren supName cs (h # running)))" for h
      using Cons.IH Cons.prems(1) by simp
    then show ?thesis
      using startNode_all_ok [OF True]
      by (simp add: split_beta)
  next
    case False
    then have "isl (snd (startNode (strings_Join [supName, nodeName c] ''/'') c))"
      using Cons.prems(1) by simp
    then show ?thesis
      by (cases "startNode (strings_Join [supName, nodeName c] ''/'') c")
         (auto simp: isl_def)
  qed
qed

lemma startNode_isl:
  "\<not> startsOk c \<Longrightarrow> isl (snd (startNode rn c))"
proof (induction c arbitrary: rn)
  case (WorkerNode n ok)
  then show ?case by simp
next
  case (SupervisorNode n ord cs)
  have "isl (snd (startChildren rn (startOrder ord cs) []))"
  proof (rule startChildren_fails)
    show "isl (snd (startNode rn' c))"
      if "c \<in> set (startOrder ord cs)" "\<not> startsOk c" for c rn'
      using that SupervisorNode.IH by simp
    show "\<not> list_all startsOk (startOrder ord cs)"
      using SupervisorNode.prems by (simp add: list_all_iff)
  qed
  then show ?case
    by (cases "startChildren rn (startOrder ord cs) []") (auto simp: isl_def)
qed

lemma startNode_fails:
  "\<not> startsOk c \<Longrightarrow> snd (startNode rn c) = Inl (failureOf rn c)"
proof (cases c)
  case (WorkerNode n ok)
  assume "\<not> startsOk c"
  with WorkerNode show ?thesis by simp
next
  case (SupervisorNode n ord cs)
  assume "\<not> startsOk c"
  then have "isl (snd (startNode rn c))" by (rule startNode_isl)
  with SupervisorNode show ?thesis
    by (cases "startChildren rn (startOrder ord cs) []") (auto split: sum.splits)
qed

lemma no_started_in_terminate:
  "SupervisorStarted x \<notin> set (terminateNode h)"
  "SupervisorStarted x \<notin> set (terminateChildren hs)"
  by (induction h and hs rule: terminateNode_terminateChildren.induct) simp_all

lemma started_names_below:
  "SupervisorStarted x \<in> set (fst (startNode rn c)) \<Longrightarrow> length rn \<le> length x"
  "SupervisorStarted x \<in> set (fst (startChildren supName cs running)) \<Longrightarrow>
     length supName < length x"
proof (induction rn c and supName cs running rule: startNode_startChildren.induct)
  case (1 rn n ok)
  then show ?case by (simp split: if_splits)
next
  case (2 rn n ord cs)
  then show ?case
    by (cases "startChildren rn (startOrder ord cs) []")
       (auto split: sum.splits)
next
  case (3 supName running)
  then show ?case by simp
next
  case (4 supName c cs running)
  then show ?case
    by (cases "startNode (strings_Join [supName, nodeName c] ''/'') c")
       (auto split: sum.splits prod.splits simp: no_started_in_terminate)
qed

text \<open>
  Claim C5. Let the children of a supervisor, in start order, be some children
  that all start, then a child Ck whose start fails, then any further children.
  The start procedure emits the start sequences of the children before Ck, then
  what the failed start of Ck emitted, then the stop sequences of the children
  before Ck in reverse start order (each emits its terminated event), then the
  supervisor's start-failed event, and it returns the \<open>StartFailed\<close> error of the
  supervisor upward. The children after Ck do not appear: none of them is started.
  The supervisor's own started event is not emitted.
\<close>

theorem start_failure_rolls_back:
  assumes "startOrder ord cs = pre @ ck # post"
    and "list_all startsOk pre" and "\<not> startsOk ck"
  shows
    "startNode rn (SupervisorNode n ord cs) =
       (concat (map (\<lambda>c. startedEvents (strings_Join [rn, nodeName c] ''/'') c) pre)
        @ fst (startNode (strings_Join [rn, nodeName ck] ''/'') ck)
        @ concat (map (\<lambda>c. stoppedEvents (strings_Join [rn, nodeName c] ''/'') c) (rev pre))
        @ [SupervisorStartFailed rn],
        Inl (StartFailed rn)) \<and>
     snd (startNode (strings_Join [rn, nodeName ck] ''/'') ck)
       = Inl (failureOf (strings_Join [rn, nodeName ck] ''/'') ck) \<and>
     SupervisorStarted rn \<notin> set (fst (startNode rn (SupervisorNode n ord cs)))"
proof -
  let ?e = "failureOf (strings_Join [rn, nodeName ck] ''/'') ck"
  have ck: "snd (startNode (strings_Join [rn, nodeName ck] ''/'') ck) = Inl ?e"
    using assms(3) by (rule startNode_fails)
  have stop: "terminateChildren
      (rev (map (\<lambda>c. handleOf (strings_Join [rn, nodeName c] ''/'') c) pre) @ [])
      = concat (map (\<lambda>c. stoppedEvents (strings_Join [rn, nodeName c] ''/'') c) (rev pre))"
    by (simp add: terminateChildren_concat rev_map terminateNode_handleOf comp_def)
  have ev: "startChildren rn (startOrder ord cs) [] =
     (concat (map (\<lambda>c. startedEvents (strings_Join [rn, nodeName c] ''/'') c) pre)
      @ fst (startNode (strings_Join [rn, nodeName ck] ''/'') ck)
      @ concat (map (\<lambda>c. stoppedEvents (strings_Join [rn, nodeName c] ''/'') c) (rev pre)),
      Inl ?e)"
    unfolding assms(1) startChildren_fail_at [OF assms(2) ck] stop ..
  have "SupervisorStarted rn \<notin> set (fst (startChildren rn (startOrder ord cs) []))"
    using started_names_below(2) [of rn rn "startOrder ord cs" "[]"] by auto
  with ev ck show ?thesis by simp
qed

text \<open>
  The tree of TestStartFailedChild: in \<open>branch1\<close> the child \<open>child3\<close> fails to
  start after \<open>child2\<close> and before \<open>child4\<close>; in the root, \<open>branch1\<close> fails
  after \<open>branch0\<close>. The events are the ones the test expects.
\<close>

theorem start_failure_rolls_back_witness:
  "startNode ''root/branch1''
     (SupervisorNode ''branch1'' LeftToRight
        [WorkerNode ''child2'' True, WorkerNode ''child3'' False, WorkerNode ''child4'' True]) =
     ([WorkerStarted ''root/branch1/child2'', WorkerStartFailed ''root/branch1/child3'',
       WorkerTerminated ''root/branch1/child2'', SupervisorStartFailed ''root/branch1''],
      Inl (StartFailed ''root/branch1'')) \<and>
   startRoot
     (SupervisorNode ''root'' LeftToRight
        [SupervisorNode ''branch0'' LeftToRight
           [WorkerNode ''child0'' True, WorkerNode ''child1'' True],
         SupervisorNode ''branch1'' LeftToRight
           [WorkerNode ''child2'' True, WorkerNode ''child3'' False,
            WorkerNode ''child4'' True]]) =
     ([WorkerStarted ''root/branch0/child0'', WorkerStarted ''root/branch0/child1'',
       SupervisorStarted ''root/branch0'',
       WorkerStarted ''root/branch1/child2'', WorkerStartFailed ''root/branch1/child3'',
       WorkerTerminated ''root/branch1/child2'', SupervisorStartFailed ''root/branch1'',
       WorkerTerminated ''root/branch0/child1'', WorkerTerminated ''root/branch0/child0'',
       SupervisorTerminated ''root/branch0'',
       SupervisorStartFailed ''root''],
      Inl (StartFailed ''root''))"
proof -
  let ?b0 = "SupervisorNode ''branch0'' LeftToRight
           [WorkerNode ''child0'' True, WorkerNode ''child1'' True]"
  let ?b1 = "SupervisorNode ''branch1'' LeftToRight
        [WorkerNode ''child2'' True, WorkerNode ''child3'' False, WorkerNode ''child4'' True]"
  have inner: "startOrder LeftToRight
        [WorkerNode ''child2'' True, WorkerNode ''child3'' False, WorkerNode ''child4'' True]
      = [WorkerNode ''child2'' True] @ WorkerNode ''child3'' False # [WorkerNode ''child4'' True]"
    by (simp add: startOrder_def)
  have outer: "startOrder LeftToRight [?b0, ?b1] = [?b0] @ ?b1 # []"
    by (simp add: startOrder_def)
  have b1: "startNode ''root/branch1'' ?b1 =
     ([WorkerStarted ''root/branch1/child2'', WorkerStartFailed ''root/branch1/child3'',
       WorkerTerminated ''root/branch1/child2'', SupervisorStartFailed ''root/branch1''],
      Inl (StartFailed ''root/branch1''))"
    using start_failure_rolls_back [OF inner, of "''root/branch1''" "''branch1''"]
    by simp
  have "startNode ''root'' (SupervisorNode ''root'' LeftToRight [?b0, ?b1]) =
     ([WorkerStarted ''root/branch0/child0'', WorkerStarted ''root/branch0/child1'',
       SupervisorStarted ''root/branch0'',
       WorkerStarted ''root/branch1/child2'', WorkerStartFailed ''root/branch1/child3'',
       WorkerTerminated ''root/branch1/child2'', SupervisorStartFailed ''root/branch1'',
       WorkerTerminated ''root/branch0/child1'', WorkerTerminated ''root/branch0/child0'',
       SupervisorTerminated ''root/branch0'',
       SupervisorStartFailed ''root''],
      Inl (StartFailed ''root''))"
    using start_failure_rolls_back [OF outer, of "''root''" "''root''"] b1
    by (simp add: startOrder_def)
  with b1 show ?thesis by (simp add: startRoot_def)
qed

section \<open>Properties of the tolerance accountant\<close>

lemma recordFailure_rule:
  "recordFailure a now =
     (a\<lparr>instants := filter (\<lambda>t. now - window a \<le> t) (instants a) @ [now]\<rparr>,
      length (filter (\<lambda>t. now - window a \<le> t) (instants a)) < max_failures a)"
  by (auto simp: recordFailure_def Let_def not_less)

lemma afterFailures_snoc:
  "afterFailures a (ts @ [now]) = fst (recordFailure (afterFailures a ts) now)"
  by (induction ts arbitrary: a) simp_all

lemma recordFailures_snoc:
  "recordFailures a (ts @ [now]) =
     recordFailures a ts @ [snd (recordFailure (afterFailures a ts) now)]"
  by (induction ts arbitrary: a) (simp_all add: split_beta)

lemma afterFailures_fields:
  "window (afterFailures a ts) = window a \<and> max_failures (afterFailures a ts) = max_failures a"
  by (induction ts arbitrary: a) (simp_all add: recordFailure_rule)

lemma instants_afterFailures:
  assumes "sorted ts" and "0 \<le> w" and "ts \<noteq> []"
  shows "instants (afterFailures (newAccountant n w) ts) = filter (\<lambda>t. last ts - w \<le> t) ts"
  using assms
proof (induction ts rule: rev_induct)
  case Nil
  then show ?case by simp
next
  case (snoc now ts)
  let ?a = "afterFailures (newAccountant n w) ts"
  have w: "window ?a = w"
    using afterFailures_fields [of "newAccountant n w" ts] by (simp add: newAccountant_def)
  show ?case
  proof (cases "ts = []")
    case True
    then show ?thesis using snoc.prems(2)
      by (simp add: recordFailure_rule newAccountant_def)
  next
    case False
    have sorted: "sorted ts" and le: "\<forall>t\<in>set ts. t \<le> now"
      using snoc.prems(1) by (auto simp: sorted_append)
    then have "last ts \<le> now" using False by simp
    have "instants ?a = filter (\<lambda>t. last ts - w \<le> t) ts"
      using snoc.IH [OF sorted snoc.prems(2) False] .
    then have "filter (\<lambda>t. now - w \<le> t) (instants ?a) = filter (\<lambda>t. now - w \<le> t) ts"
      using \<open>last ts \<le> now\<close> by (auto intro: filter_cong)
    then show ?thesis
      using snoc.prems(2) by (simp add: afterFailures_snoc recordFailure_rule w)
  qed
qed

lemma decision_on_history:
  assumes "sorted (ts @ [now])" and "0 \<le> w"
  shows "last (recordFailures (newAccountant n w) (ts @ [now])) =
           (length (filter (\<lambda>t. now - w \<le> t) ts) < n)"
proof -
  let ?a = "afterFailures (newAccountant n w) ts"
  have f: "window ?a = w" "max_failures ?a = n"
    using afterFailures_fields [of "newAccountant n w" ts] by (simp_all add: newAccountant_def)
  have "filter (\<lambda>t. now - w \<le> t) (instants ?a) = filter (\<lambda>t. now - w \<le> t) ts"
  proof (cases "ts = []")
    case True
    then show ?thesis by (simp add: newAccountant_def)
  next
    case False
    have sorted: "sorted ts" and le: "\<forall>t\<in>set ts. t \<le> now"
      using assms(1) by (auto simp: sorted_append)
    then have "last ts \<le> now" using False by simp
    then show ?thesis
      using instants_afterFailures [OF sorted assms(2) False, of n]
      by (auto intro: filter_cong)
  qed
  then show ?thesis
    by (simp add: recordFailures_snoc recordFailure_rule f)
qed

lemma decisions_within_window:
  assumes "sorted ts" and "0 \<le> w" and "\<forall>t\<in>set ts. \<forall>u\<in>set ts. u - w \<le> t"
  shows "recordFailures (newAccountant n w) ts = map (\<lambda>i. i < n) [0..<length ts]"
  using assms
proof (induction ts rule: rev_induct)
  case Nil
  show ?case by simp
next
  case (snoc now ts)
  have sorted: "sorted ts" using snoc.prems(1) by (simp add: sorted_append)
  have "recordFailures (newAccountant n w) ts = map (\<lambda>i. i < n) [0..<length ts]"
    using snoc.IH [OF sorted snoc.prems(2)] snoc.prems(3) by simp
  moreover have "filter (\<lambda>t. now - w \<le> t) ts = ts"
    using snoc.prems(3) by (simp add: filter_id_conv)
  moreover have "recordFailures (newAccountant n w) (ts @ [now]) \<noteq> []"
    by (simp add: recordFailures_snoc)
  ultimately show ?case
    using decision_on_history [OF snoc.prems(1,2), of n]
    by (simp add: recordFailures_snoc)
qed

text \<open>
  Claim C3. On each recorded failure the accountant keeps the instants that are
  not older than \<open>now - W\<close>, pushes \<open>now\<close>, and admits the restart iff the number
  of instants it then holds is at most \<open>N\<close>. Hence, for failures recorded in the
  order of their instants by an accountant that starts empty: a failure is admitted
  iff fewer than \<open>N\<close> earlier failures lie in the window of width \<open>W\<close> that ends at
  it; of failures that all lie within \<open>W\<close> of each other the first \<open>N\<close> are admitted
  and every later one, the \<open>(N+1)\<close>-th first, is refused; and a failure that comes
  when every earlier one is older than \<open>now - W\<close> is decided as a first failure is,
  that is admitted again whenever \<open>N\<close> is at least one.
\<close>

theorem tolerance_window:
  "recordFailure a now =
     (a\<lparr>instants := filter (\<lambda>t. now - window a \<le> t) (instants a) @ [now]\<rparr>,
      length (filter (\<lambda>t. now - window a \<le> t) (instants a) @ [now]) \<le> max_failures a) \<and>
   (sorted (ts @ [now]) \<and> 0 \<le> w \<longrightarrow>
      last (recordFailures (newAccountant n w) (ts @ [now])) =
        (length (filter (\<lambda>t. now - w \<le> t) ts) < n)) \<and>
   (sorted ts \<and> 0 \<le> w \<and> (\<forall>t\<in>set ts. \<forall>u\<in>set ts. u - w \<le> t) \<longrightarrow>
      recordFailures (newAccountant n w) ts = map (\<lambda>i. i < n) [0..<length ts]) \<and>
   (sorted (ts @ [now]) \<and> 0 \<le> w \<and> (\<forall>t\<in>set ts. t < now - w) \<longrightarrow>
      last (recordFailures (newAccountant n w) (ts @ [now])) = (0 < n) \<and>
      recordFailures (newAccountant n w) [now] = [0 < n])"
proof -
  have "filter (\<lambda>t. now - w \<le> t) ts = []" if "\<forall>t\<in>set ts. t < now - w"
    using that by (auto simp: filter_empty_conv)
  moreover have "recordFailures (newAccountant n w) [now] = [0 < n]"
    by (simp add: recordFailure_rule newAccountant_def)
  ultimately show ?thesis
    using recordFailure_rule [of a now] decision_on_history [of ts now w n]
      decisions_within_window [of ts w n]
    by auto
qed

text \<open>
  The tolerance of TestPermanentOneForOneSingleFailingChildReachThreshold, two
  failures in ten seconds, with three failures one second apart: two restarts, then
  the escalation. The tolerance of
  TestPermanentOneForOneNestedFailingChildErrorCountResets, one failure in 100
  microseconds, with two failures 300 microseconds apart: both are admitted.
\<close>

theorem tolerance_window_witness:
  "recordFailures (newAccountant 2 10000000000) [1000000000, 2000000000, 3000000000]
     = [True, True, False] \<and>
   last (recordFailures (newAccountant 1 100000) ([0] @ [300000])) = True \<and>
   recordFailures (newAccountant 1 100000) [0, 300000] = [True, True]"
proof -
  have a: "recordFailures (newAccountant 2 10000000000)
      [1000000000, 2000000000, 3000000000] = [True, True, False]"
    using tolerance_window [where ts = "[1000000000, 2000000000, 3000000000]"
        and w = 10000000000 and n = 2 and now = 3000000000
        and a = "newAccountant 2 10000000000"]
    by simp
  have b: "last (recordFailures (newAccountant 1 100000) ([0] @ [300000])) = True"
    using tolerance_window [where ts = "[0]" and now = 300000 and w = 100000 and n = 1
        and a = "newAccountant 1 100000"]
    by simp
  have c: "recordFailures (newAccountant 1 100000) [0, 300000] = [True, True]"
    by (simp add: recordFailure_rule newAccountant_def)
  from a b c show ?thesis by simp
qed

end
